theory Spec2Isabelle
  imports Main "HOL-Library.AList"
begin

section \<open>The host environment\<close>

subsection \<open>Web Storage\<close>

text \<open>
  Both classes talk to a browser \<^verbatim>\<open>Storage\<close> object (\<^verbatim>\<open>localStorage\<close> or
  \<^verbatim>\<open>sessionStorage\<close>).  The object is not code of the repository; it is modelled as a
  state record that every call threads through:
  \<^item> \<open>entries\<close>: the stored key/value pairs, in key order (\<^verbatim>\<open>key(i)\<close> indexes them);
  \<^item> \<open>quota\<close>: the capacity, in characters of keys plus values; a \<^verbatim>\<open>setItem\<close> that would
    exceed it throws \<^verbatim>\<open>QuotaExceededError\<close> and stores nothing;
  \<^item> \<open>denied\<close>: the backend is inaccessible (a restrictive browsing context): every call
    throws \<^verbatim>\<open>SecurityError\<close>;
  \<^item> \<open>calls\<close>: the journal of every call made so far, reads included, so that
    ``the storage is not touched'' can be stated.
  A call returns its result, \<open>Inl\<close> for a thrown exception, together with the new state.
\<close>

datatype DOMException = QuotaExceededError | SecurityError

datatype storage_call =
    Call_length
  | Call_key nat
  | Call_getItem string
  | Call_setItem string string
  | Call_removeItem string

record Storage =
  entries :: "(string \<times> string) list"
  quota :: nat
  denied :: bool
  calls :: "storage_call list"

definition logged :: "storage_call \<Rightarrow> Storage \<Rightarrow> Storage" where
  "logged c st = st\<lparr>calls := calls st @ [c]\<rparr>"

definition storage_size :: "(string \<times> string) list \<Rightarrow> nat" where
  "storage_size es = sum_list (map (\<lambda>(k, v). length k + length v) es)"

definition storage_length :: "Storage \<Rightarrow> (DOMException + nat) \<times> Storage" where
  "storage_length st =
     (if denied st then (Inl SecurityError, logged Call_length st)
      else (Inr (length (entries st)), logged Call_length st))"

text \<open>\<^verbatim>\<open>key(i)\<close> is \<^verbatim>\<open>null\<close> (here \<open>None\<close>) when \<open>i\<close> is out of range.\<close>

definition storage_key :: "nat \<Rightarrow> Storage \<Rightarrow> (DOMException + string option) \<times> Storage" where
  "storage_key i st =
     (if denied st then (Inl SecurityError, logged (Call_key i) st)
      else if i < length (entries st) then (Inr (Some (fst (entries st ! i))), logged (Call_key i) st)
      else (Inr None, logged (Call_key i) st))"

definition getItem :: "string \<Rightarrow> Storage \<Rightarrow> (DOMException + string option) \<times> Storage" where
  "getItem k st =
     (if denied st then (Inl SecurityError, logged (Call_getItem k) st)
      else (Inr (map_of (entries st) k), logged (Call_getItem k) st))"

text \<open>
  \<open>accepts st k v\<close>: the backend is accessible and has room for \<open>v\<close> under \<open>k\<close>
  (an existing value of \<open>k\<close> is replaced, so only the difference counts).
\<close>

definition accepts :: "Storage \<Rightarrow> string \<Rightarrow> string \<Rightarrow> bool" where
  "accepts st k v \<longleftrightarrow>
     \<not> denied st \<and> storage_size (AList.update k v (entries st)) \<le> quota st"

definition setItem :: "string \<Rightarrow> string \<Rightarrow> Storage \<Rightarrow> (DOMException + unit) \<times> Storage" where
  "setItem k v st =
     (if denied st then (Inl SecurityError, logged (Call_setItem k v) st)
      else if quota st < storage_size (AList.update k v (entries st))
        then (Inl QuotaExceededError, logged (Call_setItem k v) st)
      else (Inr (), logged (Call_setItem k v) (st\<lparr>entries := AList.update k v (entries st)\<rparr>)))"

definition removeItem :: "string \<Rightarrow> Storage \<Rightarrow> (DOMException + unit) \<times> Storage" where
  "removeItem k st =
     (if denied st then (Inl SecurityError, logged (Call_removeItem k) st)
      else (Inr (), logged (Call_removeItem k) (st\<lparr>entries := AList.delete k (entries st)\<rparr>)))"

subsection \<open>Queue items, cache entries and the JSON codec\<close>

text \<open>
  \<^verbatim>\<open>interface QueueItem { id; data; timestamp; retryCount }\<close> and
  \<^verbatim>\<open>interface CacheEntry { data; timestamp; etag? }\<close>.  The payload \<^verbatim>\<open>data: unknown\<close> is
  the type parameter \<open>'a\<close>.  Timestamps are epoch milliseconds and \<^verbatim>\<open>retryCount\<close> a counter:
  JavaScript numbers that hold integers, modelled as \<open>int\<close>.  The fields of the two
  interfaces that share a name carry the prefix \<open>item_\<close> or \<open>entry_\<close>.

  The interfaces are compile-time annotations: nothing checks at run time that an object
  read back from storage has the fields.  \<open>item_id\<close> is \<open>Some\<close> the id string, and \<open>None\<close>
  for an object without an \<^verbatim>\<open>id\<close>, whose \<^verbatim>\<open>item.id\<close> reads \<^verbatim>\<open>undefined\<close>; \<^verbatim>\<open>===\<close> on two ids is
  equality of these values.
\<close>

record 'a QueueItem =
  item_id :: "string option"
  item_data :: 'a
  item_timestamp :: int
  retryCount :: int

record 'a CacheEntry =
  entry_data :: 'a
  entry_timestamp :: int
  etag :: "string option"

text \<open>
  \<^verbatim>\<open>JSON.parse\<close> and \<^verbatim>\<open>JSON.stringify\<close> are built into the JavaScript runtime.  They are
  parameters of the model, so that every theorem holds for any codec, and a theorem that
  needs a value to survive the round trip says so in a hypothesis.
  \<^item> \<^verbatim>\<open>JSON.stringify\<close> returns the text, or throws a \<^verbatim>\<open>TypeError\<close> (\<open>None\<close>) on a payload
    it cannot serialise (a cyclic object, a BigInt).
  \<^item> \<^verbatim>\<open>JSON.parse\<close> of the persisted queue throws a \<^verbatim>\<open>SyntaxError\<close> on text that is not
    JSON; on JSON that is not an array the call \<^verbatim>\<open>items.filter(...)\<close> that follows throws a
    \<^verbatim>\<open>TypeError\<close> (\<open>NotArray\<close>); otherwise the text decodes to an array, whose elements
    the code takes for items as they are (\<open>Parsed\<close>).  The model has the arrays of
    objects with a number for \<^verbatim>\<open>timestamp\<close> and for \<^verbatim>\<open>retryCount\<close>, with or without an \<^verbatim>\<open>id\<close>.
  \<^item> \<^verbatim>\<open>JSON.parse\<close> of a cache entry throws (\<open>None\<close>) or decodes to an entry
    (\<^verbatim>\<open>const entry: CacheEntry\<close>).
\<close>

datatype 'v parsed = SyntaxError | NotArray | Parsed 'v

record 'a JSON =
  stringify_queue :: "'a QueueItem list \<Rightarrow> string option"
  parse_queue :: "string \<Rightarrow> 'a QueueItem list parsed"
  stringify_entry :: "'a CacheEntry \<Rightarrow> string option"
  parse_entry :: "string \<Rightarrow> 'a CacheEntry option"

section \<open>offline-queue.ts\<close>

record OfflineOptions =
  enabled :: bool
  queueSubmissions :: bool
  retryOnReconnect :: bool

text \<open>The object state: \<^verbatim>\<open>this.options\<close> and \<^verbatim>\<open>this.queue\<close>.\<close>

record 'a OfflineQueue =
  options :: OfflineOptions
  queue :: "'a QueueItem list"

definition storageKey :: string where
  "storageKey = ''mail818_offline_queue''"

definition maxRetries :: int where
  "maxRetries = 3"

text \<open>
  \<^verbatim>\<open>saveQueue\<close>: the whole body is inside \<^verbatim>\<open>try\<close>, and the \<^verbatim>\<open>catch\<close> only logs, so an
  exception of \<^verbatim>\<open>JSON.stringify\<close>, \<^verbatim>\<open>setItem\<close> or \<^verbatim>\<open>removeItem\<close> ends the call normally, with
  the storage as the failed call left it.
\<close>

definition saveQueue :: "'a JSON \<Rightarrow> 'a OfflineQueue \<Rightarrow> Storage \<Rightarrow> Storage" where
  "saveQueue J q st =
     (if length (queue q) = 0 then snd (removeItem storageKey st)
      else (case stringify_queue J (queue q) of
              None \<Rightarrow> st
            | Some s \<Rightarrow> snd (setItem storageKey s st)))"

text \<open>
  \<^verbatim>\<open>loadQueue\<close>, at time \<open>now\<close> (the value of \<^verbatim>\<open>Date.now()\<close>).  \<^verbatim>\<open>if (stored)\<close> is false for
  \<^verbatim>\<open>null\<close> and for the empty string.  Every exception is caught and resets the queue.
\<close>

definition loadQueue ::
  "'a JSON \<Rightarrow> int \<Rightarrow> 'a OfflineQueue \<Rightarrow> Storage \<Rightarrow> 'a OfflineQueue \<times> Storage" where
  "loadQueue J now q st =
     (case getItem storageKey st of
        (Inl e, st1) \<Rightarrow> (q\<lparr>queue := []\<rparr>, st1)
      | (Inr stored, st1) \<Rightarrow>
          (case stored of
             None \<Rightarrow> (q, st1)
           | Some s \<Rightarrow>
               if s = [] then (q, st1)
               else
                 (case parse_queue J s of
                    SyntaxError \<Rightarrow> (q\<lparr>queue := []\<rparr>, st1)
                  | NotArray \<Rightarrow> (q\<lparr>queue := []\<rparr>, st1)
                  | Parsed items \<Rightarrow>
                      (let cutoff = now - (7 * 24 * 60 * 60 * 1000);
                           q' = q\<lparr>queue := filter (\<lambda>item. item_timestamp item > cutoff
                                                   \<and> retryCount item < maxRetries) items\<rparr>
                       in if length (queue q') \<noteq> length items then (q', saveQueue J q' st1)
                          else (q', st1)))))"

text \<open>The constructor.\<close>

definition OfflineQueue_new ::
  "'a JSON \<Rightarrow> int \<Rightarrow> OfflineOptions \<Rightarrow> Storage \<Rightarrow> 'a OfflineQueue \<times> Storage" where
  "OfflineQueue_new J now opts st =
     (let q = \<lparr>options = opts, queue = []\<rparr>
      in if enabled opts then loadQueue J now q st else (q, st))"

subsection \<open>\<^verbatim>\<open>generateULID\<close>\<close>

text \<open>
  \<^verbatim>\<open>Number.prototype.toString(36)\<close> on an integer: digits \<open>0-9a-z\<close>, a minus sign for a
  negative number.
\<close>

definition digit36 :: "nat \<Rightarrow> char" where
  "digit36 d = ''0123456789abcdefghijklmnopqrstuvwxyz'' ! (d mod 36)"

function digits36 :: "nat \<Rightarrow> string" where
  "digits36 n = (if n < 36 then [digit36 n] else digits36 (n div 36) @ [digit36 n])"
  by pat_completeness auto
termination
  by (relation "measure (\<lambda>n. n)") auto

definition toString36 :: "int \<Rightarrow> string" where
  "toString36 i = (if i < 0 then CHR ''-'' # digits36 (nat (- i)) else digits36 (nat i))"

text \<open>\<^verbatim>\<open>toUpperCase\<close>, on the characters base 36 produces.\<close>

definition toUpperCase :: "string \<Rightarrow> string" where
  "toUpperCase s =
     map (\<lambda>c. case map_of (zip ''abcdefghijklmnopqrstuvwxyz'' ''ABCDEFGHIJKLMNOPQRSTUVWXYZ'') c of
                 Some u \<Rightarrow> u
               | None \<Rightarrow> c) s"

definition padStart :: "nat \<Rightarrow> char \<Rightarrow> string \<Rightarrow> string" where
  "padStart n c s = replicate (n - length s) c @ s"

text \<open>\<^verbatim>\<open>s.substring(a, b)\<close> for \<open>a \<le> b\<close>.\<close>

definition substring :: "nat \<Rightarrow> nat \<Rightarrow> string \<Rightarrow> string" where
  "substring a b s = take (b - a) (drop a s)"

text \<open>
  \<open>t\<close> is the value of \<^verbatim>\<open>Date.now()\<close> and \<open>rnd\<close> the text of
  \<^verbatim>\<open>Math.random().toString(36)\<close>, such as \<^verbatim>\<open>0.4fzyo82mvyr\<close>.
\<close>

definition generateULID :: "int \<Rightarrow> string \<Rightarrow> string" where
  "generateULID t rnd =
     (let timestampStr = padStart 10 (CHR ''0'') (toUpperCase (toString36 t));
          randomStr = padStart 16 (CHR ''0'') (toUpperCase (substring 2 18 rnd))
      in substring 0 26 (timestampStr @ randomStr))"

subsection \<open>The public methods\<close>

text \<open>
  \<^verbatim>\<open>add(data)\<close>.  \<^verbatim>\<open>Date.now()\<close> is read twice, first inside \<^verbatim>\<open>generateULID\<close> (\<open>t_id\<close>),
  then for the timestamp (\<open>now\<close>).
\<close>

definition add ::
  "'a JSON \<Rightarrow> int \<Rightarrow> string \<Rightarrow> int \<Rightarrow> 'a \<Rightarrow> 'a OfflineQueue \<Rightarrow> Storage
     \<Rightarrow> 'a OfflineQueue \<times> Storage" where
  "add J t_id rnd now d q st =
     (if \<not> queueSubmissions (options q) then (q, st)
      else
        (let item = \<lparr>item_id = Some (generateULID t_id rnd), item_data = d,
                     item_timestamp = now, retryCount = 0\<rparr>;
             q' = q\<lparr>queue := queue q @ [item]\<rparr>
         in (q', saveQueue J q' st)))"

text \<open>\<^verbatim>\<open>getAll()\<close> returns \<^verbatim>\<open>[...this.queue]\<close>: a new array of the same items.\<close>

definition getAll :: "'a OfflineQueue \<Rightarrow> 'a QueueItem list" where
  "getAll q = queue q"

text \<open>\<^verbatim>\<open>Array.prototype.findIndex\<close>: the first index that satisfies \<open>P\<close>, or \<open>-1\<close>.\<close>

fun findIndex :: "('b \<Rightarrow> bool) \<Rightarrow> 'b list \<Rightarrow> int" where
  "findIndex P [] = - 1"
| "findIndex P (x # xs) =
     (if P x then 0 else (let r = findIndex P xs in if r = - 1 then - 1 else r + 1))"

text \<open>\<^verbatim>\<open>xs.splice(index, 1)\<close> for \<open>0 \<le> index\<close>.\<close>

definition splice1 :: "int \<Rightarrow> 'b list \<Rightarrow> 'b list" where
  "splice1 index xs = take (nat index) xs @ drop (nat index + 1) xs"

definition remove ::
  "'a JSON \<Rightarrow> 'a QueueItem \<Rightarrow> 'a OfflineQueue \<Rightarrow> Storage \<Rightarrow> 'a OfflineQueue \<times> Storage" where
  "remove J item q st =
     (let index = findIndex (\<lambda>i. item_id i = item_id item) (queue q)
      in if index \<noteq> - 1
         then (let q' = q\<lparr>queue := splice1 index (queue q)\<rparr> in (q', saveQueue J q' st))
         else (q, st))"

text \<open>
  \<^verbatim>\<open>incrementRetry(item)\<close>: \<^verbatim>\<open>find\<close> returns the first queued object with the id, and
  \<^verbatim>\<open>retryCount++\<close> changes that object where it stands in the queue.
\<close>

definition incrementRetry ::
  "'a JSON \<Rightarrow> 'a QueueItem \<Rightarrow> 'a OfflineQueue \<Rightarrow> Storage
     \<Rightarrow> bool \<times> 'a OfflineQueue \<times> Storage" where
  "incrementRetry J item q st =
     (case find (\<lambda>i. item_id i = item_id item) (queue q) of
        Some queueItem \<Rightarrow>
          (let bumped = queueItem\<lparr>retryCount := retryCount queueItem + 1\<rparr>;
               q' = q\<lparr>queue := (queue q)
                       [nat (findIndex (\<lambda>i. item_id i = item_id item) (queue q)) := bumped]\<rparr>
           in (retryCount bumped < maxRetries, q', saveQueue J q' st))
      | None \<Rightarrow> (False, q, st))"

definition clear :: "'a JSON \<Rightarrow> 'a OfflineQueue \<Rightarrow> Storage \<Rightarrow> 'a OfflineQueue \<times> Storage" where
  "clear J q st = (let q' = q\<lparr>queue := []\<rparr> in (q', saveQueue J q' st))"

definition size_queue :: "'a OfflineQueue \<Rightarrow> nat" where
  "size_queue q = length (queue q)"

subsection \<open>The queue array and the item objects\<close>

text \<open>
  In the source \<^verbatim>\<open>this.queue\<close> is a reference to an array, and the array holds references
  to item objects.  The methods above are written on the items as values, which is what
  every method reads and what \<^verbatim>\<open>saveQueue\<close> writes.  Where it matters which array or object
  a reference points to (\<^verbatim>\<open>getAll()\<close> returns \<^verbatim>\<open>[...this.queue]\<close>, another array of the same
  objects), the methods are written on a store: \<open>arrays\<close> gives the item references an array
  holds, \<open>objects\<close> the item a reference points to, and \<open>next_ref\<close> is the next reference to
  allocate.  \<open>view\<close> reads the queue object through its references, as a queue of the
  model above.
  \<^item> \<^verbatim>\<open>this.queue.push(item)\<close> and \<^verbatim>\<open>this.queue.splice(index, 1)\<close> change the array
    \<^verbatim>\<open>this.queue\<close> points to, in place;
  \<^item> \<^verbatim>\<open>[...this.queue]\<close> allocates an array and copies the item references into it;
  \<^item> \<^verbatim>\<open>queueItem.retryCount++\<close> changes the item object, whatever arrays hold it.
\<close>

type_synonym ref = nat

record 'a Store =
  arrays :: "ref \<Rightarrow> ref list"
  objects :: "ref \<Rightarrow> 'a QueueItem"
  next_ref :: ref

record OfflineQueue_obj =
  obj_options :: OfflineOptions
  queue_ref :: ref

definition contents :: "'a Store \<Rightarrow> ref \<Rightarrow> 'a QueueItem list" where
  "contents h r = map (objects h) (arrays h r)"

definition view :: "'a Store \<Rightarrow> OfflineQueue_obj \<Rightarrow> 'a OfflineQueue" where
  "view h Q = \<lparr>options = obj_options Q, queue = contents h (queue_ref Q)\<rparr>"

definition add_ref ::
  "'a JSON \<Rightarrow> int \<Rightarrow> string \<Rightarrow> int \<Rightarrow> 'a \<Rightarrow> OfflineQueue_obj \<Rightarrow> 'a Store \<Rightarrow> Storage
     \<Rightarrow> 'a Store \<times> Storage" where
  "add_ref J t_id rnd now d Q h st =
     (if \<not> queueSubmissions (obj_options Q) then (h, st)
      else
        (let item = \<lparr>item_id = Some (generateULID t_id rnd), item_data = d,
                     item_timestamp = now, retryCount = 0\<rparr>;
             obj = next_ref h;
             h' = h\<lparr>arrays := (arrays h)(queue_ref Q := arrays h (queue_ref Q) @ [obj]),
                    objects := (objects h)(obj := item),
                    next_ref := obj + 1\<rparr>
         in (h', saveQueue J (view h' Q) st)))"

definition getAll_ref :: "OfflineQueue_obj \<Rightarrow> 'a Store \<Rightarrow> ref \<times> 'a Store" where
  "getAll_ref Q h =
     (let r = next_ref h
      in (r, h\<lparr>arrays := (arrays h)(r := arrays h (queue_ref Q)), next_ref := r + 1\<rparr>))"

definition remove_ref ::
  "'a JSON \<Rightarrow> 'a QueueItem \<Rightarrow> OfflineQueue_obj \<Rightarrow> 'a Store \<Rightarrow> Storage \<Rightarrow> 'a Store \<times> Storage" where
  "remove_ref J item Q h st =
     (let index = findIndex (\<lambda>i. item_id i = item_id item) (contents h (queue_ref Q))
      in if index \<noteq> - 1
         then (let h' = h\<lparr>arrays := (arrays h)
                          (queue_ref Q := splice1 index (arrays h (queue_ref Q)))\<rparr>
               in (h', saveQueue J (view h' Q) st))
         else (h, st))"

definition incrementRetry_ref ::
  "'a JSON \<Rightarrow> 'a QueueItem \<Rightarrow> OfflineQueue_obj \<Rightarrow> 'a Store \<Rightarrow> Storage
     \<Rightarrow> bool \<times> 'a Store \<times> Storage" where
  "incrementRetry_ref J item Q h st =
     (case find (\<lambda>obj. item_id (objects h obj) = item_id item) (arrays h (queue_ref Q)) of
        Some obj \<Rightarrow>
          (let bumped = (objects h obj)\<lparr>retryCount := retryCount (objects h obj) + 1\<rparr>;
               h' = h\<lparr>objects := (objects h)(obj := bumped)\<rparr>
           in (retryCount bumped < maxRetries, h', saveQueue J (view h' Q) st))
      | None \<Rightarrow> (False, h, st))"

section \<open>cache.ts\<close>

datatype StorageKind = LocalStorage | SessionStorage

text \<open>
  \<^verbatim>\<open>interface CacheOptions { enabled; ttl; storage }\<close>; \<open>cache_enabled\<close> is its field
  \<^verbatim>\<open>enabled\<close>.
\<close>

record CacheOptions =
  cache_enabled :: bool
  ttl :: int
  storage :: StorageKind

text \<open>
  The two backends of the page.  The constructor keeps \<^verbatim>\<open>window.sessionStorage\<close> or
  \<^verbatim>\<open>window.localStorage\<close> in \<^verbatim>\<open>this.storage\<close>, by the option \<open>storage\<close>; the methods below
  take the state of that backend.
\<close>

record Window =
  localStorage :: Storage
  sessionStorage :: Storage

definition this_storage :: "CacheOptions \<Rightarrow> Window \<Rightarrow> Storage" where
  "this_storage opts w =
     (if storage opts = SessionStorage then sessionStorage w else localStorage w)"

definition prefix :: string where
  "prefix = ''mail818_''"

definition startsWith :: "string \<Rightarrow> string \<Rightarrow> bool" where
  "startsWith s p \<longleftrightarrow> take (length p) s = p"

text \<open>
  The first loop of \<^verbatim>\<open>cleanExpired\<close>:
  \<^verbatim>\<open>for (let i = 0; i < this.storage.length; i++) { const key = this.storage.key(i); ... }\<close>.
  It is outside every \<^verbatim>\<open>try\<close>, so an exception of the backend leaves the method.
\<close>

function scan_keys ::
  "nat \<Rightarrow> string list \<Rightarrow> Storage \<Rightarrow> (DOMException + string list) \<times> Storage" where
  "scan_keys i keys st =
     (case storage_length st of
        (Inl e, st1) \<Rightarrow> (Inl e, st1)
      | (Inr n, st1) \<Rightarrow>
          if i < n then
            (case storage_key i st1 of
               (Inl e, st2) \<Rightarrow> (Inl e, st2)
             | (Inr key, st2) \<Rightarrow>
                 scan_keys (i + 1)
                   (case key of
                      Some k \<Rightarrow> if startsWith k prefix then keys @ [k] else keys
                    | None \<Rightarrow> keys)
                   st2)
          else (Inr keys, st1))"
  by pat_completeness auto
termination
  by (relation "measure (\<lambda>(i, keys, st). length (entries st) - i)")
     (auto simp: storage_length_def storage_key_def logged_def split: if_splits)

text \<open>
  The body of \<^verbatim>\<open>keys.forEach\<close>.  An exception inside the \<^verbatim>\<open>try\<close> (of \<^verbatim>\<open>getItem\<close>,
  \<^verbatim>\<open>JSON.parse\<close> or \<^verbatim>\<open>removeItem\<close>) runs the \<^verbatim>\<open>catch\<close>, which calls \<^verbatim>\<open>removeItem(key)\<close>
  unguarded.
\<close>

definition sweep_key ::
  "'a JSON \<Rightarrow> int \<Rightarrow> CacheOptions \<Rightarrow> string \<Rightarrow> Storage \<Rightarrow> (DOMException + unit) \<times> Storage" where
  "sweep_key J now opts key st =
     (case getItem key st of
        (Inl e, st1) \<Rightarrow> removeItem key st1
      | (Inr item, st1) \<Rightarrow>
          (case item of
             None \<Rightarrow> (Inr (), st1)
           | Some s \<Rightarrow>
               if s = [] then (Inr (), st1)
               else
                 (case parse_entry J s of
                    None \<Rightarrow> removeItem key st1
                  | Some entry \<Rightarrow>
                      if now - entry_timestamp entry > ttl opts then
                        (case removeItem key st1 of
                           (Inl e, st2) \<Rightarrow> removeItem key st2
                         | (Inr u, st2) \<Rightarrow> (Inr (), st2))
                      else (Inr (), st1))))"

fun sweep_keys ::
  "'a JSON \<Rightarrow> int \<Rightarrow> CacheOptions \<Rightarrow> string list \<Rightarrow> Storage
     \<Rightarrow> (DOMException + unit) \<times> Storage" where
  "sweep_keys J now opts [] st = (Inr (), st)"
| "sweep_keys J now opts (key # keys) st =
     (case sweep_key J now opts key st of
        (Inl e, st1) \<Rightarrow> (Inl e, st1)
      | (Inr u, st1) \<Rightarrow> sweep_keys J now opts keys st1)"

definition cleanExpired ::
  "'a JSON \<Rightarrow> int \<Rightarrow> CacheOptions \<Rightarrow> Storage \<Rightarrow> (DOMException + unit) \<times> Storage" where
  "cleanExpired J now opts st =
     (case scan_keys 0 [] st of
        (Inl e, st1) \<Rightarrow> (Inl e, st1)
      | (Inr keys, st1) \<Rightarrow> sweep_keys J now opts keys st1)"

text \<open>
  The constructor selects the backend and runs \<^verbatim>\<open>cleanExpired\<close> on it, whatever
  \<^verbatim>\<open>options.enabled\<close> is.  The result is the outcome and the new state of the selected
  backend.
\<close>

definition CacheManager_new ::
  "'a JSON \<Rightarrow> int \<Rightarrow> CacheOptions \<Rightarrow> Window \<Rightarrow> (DOMException + unit) \<times> Storage" where
  "CacheManager_new J now opts w = cleanExpired J now opts (this_storage opts w)"

text \<open>
  \<^verbatim>\<open>get(key)\<close>: \<open>None\<close> is the \<^verbatim>\<open>null\<close> the method returns for a miss.  The body is inside
  \<^verbatim>\<open>try\<close> and the \<^verbatim>\<open>catch\<close> returns \<^verbatim>\<open>null\<close>, so the result carries no exception.
\<close>

definition get_cache ::
  "'a JSON \<Rightarrow> int \<Rightarrow> CacheOptions \<Rightarrow> string \<Rightarrow> Storage \<Rightarrow> 'a option \<times> Storage" where
  "get_cache J now opts key st =
     (if \<not> cache_enabled opts then (None, st)
      else
        (case getItem (prefix @ key) st of
           (Inl e, st1) \<Rightarrow> (None, st1)
         | (Inr item, st1) \<Rightarrow>
             (case item of
                None \<Rightarrow> (None, st1)
              | Some s \<Rightarrow>
                  if s = [] then (None, st1)
                  else
                    (case parse_entry J s of
                       None \<Rightarrow> (None, st1)
                     | Some entry \<Rightarrow>
                         if now - entry_timestamp entry > ttl opts
                         then (None, snd (removeItem (prefix @ key) st1))
                         else (Some (entry_data entry), st1)))))"

text \<open>
  \<^verbatim>\<open>set(key, value, etag)\<close>.  \<^verbatim>\<open>Date.now()\<close> is read for the entry (\<open>now\<close>), inside
  \<^verbatim>\<open>cleanExpired\<close> (\<open>now_sweep\<close>) and for the entry of the second attempt (\<open>now_retry\<close>).
  A \<^verbatim>\<open>TypeError\<close> of \<^verbatim>\<open>JSON.stringify\<close> is caught and is no \<^verbatim>\<open>DOMException\<close>.  The call of
  \<^verbatim>\<open>cleanExpired\<close> stands in the \<^verbatim>\<open>catch\<close> block: an exception it throws leaves \<^verbatim>\<open>set\<close>.
\<close>

definition set_cache ::
  "'a JSON \<Rightarrow> int \<Rightarrow> int \<Rightarrow> int \<Rightarrow> CacheOptions \<Rightarrow> string \<Rightarrow> 'a \<Rightarrow> string option \<Rightarrow> Storage
     \<Rightarrow> (DOMException + unit) \<times> Storage" where
  "set_cache J now now_sweep now_retry opts key v tag st =
     (if \<not> cache_enabled opts then (Inr (), st)
      else
        (case stringify_entry J \<lparr>entry_data = v, entry_timestamp = now, etag = tag\<rparr> of
           None \<Rightarrow> (Inr (), st)
         | Some s \<Rightarrow>
             (case setItem (prefix @ key) s st of
                (Inr u, st1) \<Rightarrow> (Inr (), st1)
              | (Inl e, st1) \<Rightarrow>
                  if e = QuotaExceededError then
                    (case cleanExpired J now_sweep opts st1 of
                       (Inl e', st2) \<Rightarrow> (Inl e', st2)
                     | (Inr u, st2) \<Rightarrow>
                         (case stringify_entry J
                                 \<lparr>entry_data = v, entry_timestamp = now_retry, etag = tag\<rparr> of
                            None \<Rightarrow> (Inr (), st2)
                          | Some s' \<Rightarrow> (Inr (), snd (setItem (prefix @ key) s' st2))))
                  else (Inr (), st1))))"

section \<open>Vocabulary of the properties\<close>

text \<open>The effect of \<^verbatim>\<open>retryCount++\<close> on an item.\<close>

definition bump_retry :: "'a QueueItem \<Rightarrow> 'a QueueItem" where
  "bump_retry i = i\<lparr>retryCount := retryCount i + 1\<rparr>"

text \<open>A run of \<^verbatim>\<open>add\<close> calls, each with its clock readings, random text and payload.\<close>

fun add_all ::
  "'a JSON \<Rightarrow> (int \<times> string \<times> int \<times> 'a) list \<Rightarrow> 'a OfflineQueue \<Rightarrow> Storage
     \<Rightarrow> 'a OfflineQueue \<times> Storage" where
  "add_all J [] q st = (q, st)"
| "add_all J ((t_id, rnd, now, d) # cs) q st =
     (case add J t_id rnd now d q st of (q', st') \<Rightarrow> add_all J cs q' st')"

text \<open>Three \<^verbatim>\<open>incrementRetry\<close> calls in a row for one item, and what each returned.\<close>

definition three_retries ::
  "'a JSON \<Rightarrow> 'a QueueItem \<Rightarrow> 'a OfflineQueue \<Rightarrow> Storage
     \<Rightarrow> bool list \<times> 'a OfflineQueue \<times> Storage" where
  "three_retries J item q st =
     (case incrementRetry J item q st of (ok1, q1, st1) \<Rightarrow>
      case incrementRetry J item q1 st1 of (ok2, q2, st2) \<Rightarrow>
      case incrementRetry J item q2 st2 of (ok3, q3, st3) \<Rightarrow> ([ok1, ok2, ok3], q3, st3))"

text \<open>
  \<open>writes st\<close> counts the \<^verbatim>\<open>setItem\<close> calls in the journal.  \<open>stale J now opts item\<close> says
  that \<^verbatim>\<open>cleanExpired\<close>, run at \<open>now\<close>, removes a key whose value is \<open>item\<close>: the value is an
  expired entry, or text that does not decode.
\<close>

fun is_setItem :: "storage_call \<Rightarrow> bool" where
  "is_setItem (Call_setItem k v) = True"
| "is_setItem c = False"

definition writes :: "Storage \<Rightarrow> nat" where
  "writes st = length (filter is_setItem (calls st))"

definition stale :: "'a JSON \<Rightarrow> int \<Rightarrow> CacheOptions \<Rightarrow> string option \<Rightarrow> bool" where
  "stale J now opts item =
     (case item of
        None \<Rightarrow> False
      | Some s \<Rightarrow>
          s \<noteq> [] \<and>
          (case parse_entry J s of
             None \<Rightarrow> True
           | Some entry \<Rightarrow> now - entry_timestamp entry > ttl opts))"

text \<open>What a swept backend has in common with the one before: only entries are removed.\<close>

definition same_backend :: "Storage \<Rightarrow> Storage \<Rightarrow> bool" where
  "same_backend st st' \<longleftrightarrow>
     denied st' = denied st \<and> quota st' = quota st \<and> writes st' = writes st"

text \<open>
  A client's run of \<^verbatim>\<open>get\<close> and \<^verbatim>\<open>set\<close> calls on one manager, with the clock readings of
  each call, and what each call gave: \<open>Got\<close> the value of a \<^verbatim>\<open>get\<close>, \<open>Done\<close> the outcome of a
  \<^verbatim>\<open>set\<close>.  \<open>missed\<close> is the outcome of a call that does nothing.
\<close>

datatype 'a cache_call =
    Call_get int string
  | Call_set int int int string 'a "string option"

datatype 'a cache_result = Got "'a option" | Done "DOMException + unit"

fun run_cache ::
  "'a JSON \<Rightarrow> CacheOptions \<Rightarrow> 'a cache_call list \<Rightarrow> Storage \<Rightarrow> 'a cache_result list \<times> Storage" where
  "run_cache J opts [] st = ([], st)"
| "run_cache J opts (Call_get now key # cs) st =
     (case get_cache J now opts key st of
        (r, st1) \<Rightarrow> (case run_cache J opts cs st1 of (rs, st') \<Rightarrow> (Got r # rs, st')))"
| "run_cache J opts (Call_set now now_sweep now_retry key v tag # cs) st =
     (case set_cache J now now_sweep now_retry opts key v tag st of
        (r, st1) \<Rightarrow> (case run_cache J opts cs st1 of (rs, st') \<Rightarrow> (Done r # rs, st')))"

fun missed :: "'a cache_call \<Rightarrow> 'a cache_result" where
  "missed (Call_get now key) = Got None"
| "missed (Call_set now now_sweep now_retry key v tag) = Done (Inr ())"

text \<open>
  The queue's array and the items in it are allocated: their references are below
  \<open>next_ref\<close>, so a reference allocated later is a new one.
\<close>

definition allocated :: "'a Store \<Rightarrow> OfflineQueue_obj \<Rightarrow> bool" where
  "allocated h Q \<longleftrightarrow>
     queue_ref Q < next_ref h \<and> list_all (\<lambda>obj. obj < next_ref h) (arrays h (queue_ref Q))"

section \<open>A concrete codec and backend for the examples\<close>

text \<open>
  The examples run the model on a codec that prints queue items and cache entries with
  text payloads as JSON text, and decodes exactly the texts of a given finite table of
  values; any other text is a \<^verbatim>\<open>SyntaxError\<close>.
\<close>

function decimal :: "nat \<Rightarrow> string" where
  "decimal n =
     (if n < 10 then [''0123456789'' ! n] else decimal (n div 10) @ [''0123456789'' ! (n mod 10)])"
  by pat_completeness auto
termination
  by (relation "measure (\<lambda>n. n)") auto

definition print_int :: "int \<Rightarrow> string" where
  "print_int i = (if i < 0 then CHR ''-'' # decimal (nat (- i)) else decimal (nat i))"

definition print_item :: "string QueueItem \<Rightarrow> string" where
  \<open>print_item i =
     ''{'' @ (case item_id i of None \<Rightarrow> [] | Some t \<Rightarrow> ''"id":"'' @ t @ ''",'')
       @ ''"data":"'' @ item_data i @ ''","timestamp":''
       @ print_int (item_timestamp i) @ '',"retryCount":'' @ print_int (retryCount i) @ ''}''\<close>

fun print_items :: "string QueueItem list \<Rightarrow> string" where
  "print_items [] = []"
| "print_items [i] = print_item i"
| "print_items (i # is) = print_item i @ '','' @ print_items is"

definition print_queue :: "string QueueItem list \<Rightarrow> string" where
  "print_queue is = ''['' @ print_items is @ '']''"

definition print_entry :: "string CacheEntry \<Rightarrow> string" where
  \<open>print_entry e =
     ''{"data":"'' @ entry_data e @ ''","timestamp":'' @ print_int (entry_timestamp e)
       @ (case etag e of None \<Rightarrow> [] | Some t \<Rightarrow> '',"etag":"'' @ t @ ''"'') @ ''}''\<close>

definition table_JSON :: "string QueueItem list list \<Rightarrow> string CacheEntry list \<Rightarrow> string JSON" where
  "table_JSON qs es =
     \<lparr>stringify_queue = (\<lambda>q. Some (print_queue q)),
      parse_queue = (\<lambda>s. case find (\<lambda>q. print_queue q = s) qs of
                              Some q \<Rightarrow> Parsed q
                            | None \<Rightarrow> SyntaxError),
      stringify_entry = (\<lambda>e. Some (print_entry e)),
      parse_entry = (\<lambda>s. find (\<lambda>e. print_entry e = s) es)\<rparr>"

text \<open>An accessible backend of five million characters, with nothing stored.\<close>

definition fresh_storage :: Storage where
  "fresh_storage = \<lparr>entries = [], quota = 5000000, denied = False, calls = []\<rparr>"

definition demo_options :: OfflineOptions where
  "demo_options = \<lparr>enabled = True, queueSubmissions = True, retryOnReconnect = True\<rparr>"

definition closed_options :: OfflineOptions where
  "closed_options = \<lparr>enabled = True, queueSubmissions = False, retryOnReconnect = True\<rparr>"

definition closed_queue :: "string OfflineQueue" where
  "closed_queue = \<lparr>options = closed_options, queue = []\<rparr>"

definition item_A :: "string QueueItem" where
  "item_A = \<lparr>item_id = Some ''A'', item_data = ''a'', item_timestamp = 1000, retryCount = 0\<rparr>"

definition item_B :: "string QueueItem" where
  "item_B = \<lparr>item_id = Some ''B'', item_data = ''b'', item_timestamp = 1001, retryCount = 0\<rparr>"

definition queue_A :: "string OfflineQueue" where
  "queue_A = \<lparr>options = demo_options, queue = [item_A]\<rparr>"

definition open_queue :: "string OfflineQueue" where
  "open_queue = \<lparr>options = demo_options, queue = []\<rparr>"

definition abc_calls :: "(int \<times> string \<times> int \<times> string) list" where
  "abc_calls = [(1000, ''0.abc'', 1000, ''a''), (1001, ''0.abd'', 1001, ''b''),
                (1002, ''0.abe'', 1002, ''c'')]"

definition corrupted_storage :: Storage where
  "corrupted_storage = fresh_storage\<lparr>entries := [(storageKey, ''<html>not json</html>'')]\<rparr>"

definition week_old_item :: "string QueueItem" where
  "week_old_item = \<lparr>item_id = Some ''W'', item_data = ''w'', item_timestamp = 1000, retryCount = 0\<rparr>"

definition week_old_text :: string where
  \<open>week_old_text = ''[{"id":"W","data":"w","timestamp":1000,"retryCount":0}]''\<close>

definition week_old_storage :: Storage where
  "week_old_storage = fresh_storage\<lparr>entries := [(storageKey, week_old_text)]\<rparr>"

definition item_RS :: "string QueueItem" where
  "item_RS = \<lparr>item_id = Some ''00000000RS0000000000000ABC'', item_data = ''a'',
              item_timestamp = 1000, retryCount = 0\<rparr>"

definition text_RS :: string where
  \<open>text_RS =
     ''[{"id":"00000000RS0000000000000ABC","data":"a","timestamp":1000,"retryCount":0}]''\<close>

definition queue_RS :: "string OfflineQueue" where
  "queue_RS = \<lparr>options = demo_options, queue = [item_RS]\<rparr>"

definition retries_JSON :: "string JSON" where
  "retries_JSON =
     table_JSON [[item_RS\<lparr>retryCount := 1\<rparr>], [item_RS\<lparr>retryCount := 3\<rparr>]] []"

text \<open>
  Cache examples: a time to live of one second, an entry written at time 0, the entry
  \<^verbatim>\<open>set\<close> writes at time \<open>t\<close>, and a backend of 80 characters that holds the old entry.
\<close>

definition cache_opts :: CacheOptions where
  "cache_opts = \<lparr>cache_enabled = True, ttl = 1000, storage = LocalStorage\<rparr>"

definition old_entry :: "string CacheEntry" where
  "old_entry = \<lparr>entry_data = ''old'', entry_timestamp = 0, etag = None\<rparr>"

definition cfg_entry :: "int \<Rightarrow> string CacheEntry" where
  "cfg_entry t = \<lparr>entry_data = ''cfg'', entry_timestamp = t, etag = None\<rparr>"

definition cache_JSON :: "string JSON" where
  "cache_JSON = table_JSON [] [old_entry, cfg_entry 5000, cfg_entry 5002]"

definition full_storage :: Storage where
  "full_storage =
     \<lparr>entries = [(''mail818_old'', print_entry old_entry)], quota = 80, denied = False, calls = []\<rparr>"

definition swept_storage :: Storage where
  "swept_storage =
     \<lparr>entries = [], quota = 80, denied = False,
      calls = [Call_setItem (prefix @ ''config_X'') (print_entry (cfg_entry 5000)),
               Call_length, Call_key 0, Call_length,
               Call_getItem ''mail818_old'', Call_removeItem ''mail818_old'']\<rparr>"

definition denied_storage :: Storage where
  "denied_storage = fresh_storage\<lparr>denied := True\<rparr>"

text \<open>A codec facing a payload that \<^verbatim>\<open>JSON.stringify\<close> cannot serialise.\<close>

definition cyclic_JSON :: "string JSON" where
  "cyclic_JSON = cache_JSON\<lparr>stringify_entry := (\<lambda>e. None)\<rparr>"

definition disabled_opts :: CacheOptions where
  "disabled_opts = \<lparr>cache_enabled = False, ttl = 1000, storage = LocalStorage\<rparr>"

definition swept_at_construction :: Storage where
  "swept_at_construction =
     \<lparr>entries = [], quota = 80, denied = False,
      calls = [Call_length, Call_key 0, Call_length,
               Call_getItem ''mail818_old'', Call_removeItem ''mail818_old'']\<rparr>"

definition corrupted_cache :: Storage where
  "corrupted_cache = fresh_storage\<lparr>entries := [(''mail818_config_X'', ''###'')]\<rparr>"

definition demo_window :: Window where
  "demo_window = \<lparr>localStorage = full_storage, sessionStorage = fresh_storage\<rparr>"

text \<open>An empty backend too small for the entry, before and after a refused \<^verbatim>\<open>set\<close>.\<close>

definition tiny_storage :: Storage where
  "tiny_storage = \<lparr>entries = [], quota = 10, denied = False, calls = []\<rparr>"

definition tiny_refused :: Storage where
  "tiny_refused =
     \<lparr>entries = [], quota = 10, denied = False,
      calls = [Call_setItem (prefix @ ''config_X'') (print_entry (cfg_entry 5000)), Call_length,
               Call_setItem (prefix @ ''config_X'') (print_entry (cfg_entry 5002))]\<rparr>"

text \<open>
  A stored array whose one element has no \<^verbatim>\<open>id\<close>, and so is no queue item, but has a
  recent timestamp and no retries.
\<close>

definition junk_item :: "string QueueItem" where
  "junk_item = \<lparr>item_id = None, item_data = ''a'', item_timestamp = 1999, retryCount = 0\<rparr>"

definition junk_text :: string where
  \<open>junk_text = ''[{"data":"a","timestamp":1999,"retryCount":0}]''\<close>

definition junk_storage :: Storage where
  "junk_storage = fresh_storage\<lparr>entries := [(storageKey, junk_text)]\<rparr>"

text \<open>A store where the queue's array is array 0 and holds one item object.\<close>

definition demo_store :: "string Store" where
  "demo_store = \<lparr>arrays = (\<lambda>r. [])(0 := [1]), objects = (\<lambda>r. item_A), next_ref = 2\<rparr>"

definition demo_obj :: OfflineQueue_obj where
  "demo_obj = \<lparr>obj_options = demo_options, queue_ref = 0\<rparr>"

section \<open>Properties of the offline queue\<close>

lemma logged_simps [simp]:
  "entries (logged c st) = entries st"
  "quota (logged c st) = quota st"
  "denied (logged c st) = denied st"
  "calls (logged c st) = calls st @ [c]"
  by (simp_all add: logged_def)

lemma getItem_ok:
  "\<not> denied st \<Longrightarrow> getItem k st = (Inr (map_of (entries st) k), logged (Call_getItem k) st)"
  by (simp add: getItem_def)

lemma setItem_accepted:
  "accepts st k v \<Longrightarrow>
     setItem k v st =
       (Inr (), logged (Call_setItem k v) (st\<lparr>entries := AList.update k v (entries st)\<rparr>))"
  by (simp add: setItem_def accepts_def)

lemma accepts_iff: "accepts st k v \<longleftrightarrow> fst (setItem k v st) = Inr ()"
  by (simp add: setItem_def accepts_def)

lemma saveQueue_accepted:
  assumes "queue q \<noteq> []" "stringify_queue J (queue q) = Some s" "accepts st storageKey s"
  shows "map_of (entries (saveQueue J q st)) storageKey = Some s \<and> \<not> denied (saveQueue J q st)"
  using assms by (simp add: saveQueue_def setItem_accepted update_conv') (simp add: accepts_def)

lemma accepts_saveQueue:
  assumes "queue q \<noteq> []"
  shows "accepts (saveQueue J q st) storageKey v = accepts st storageKey v"
  using assms by (auto simp: saveQueue_def setItem_def accepts_def split: option.splits)

lemma loadQueue_parsed:
  assumes "\<not> denied st" "map_of (entries st) storageKey = Some s" "s \<noteq> []"
    "parse_queue J s = Parsed items"
  shows "queue (fst (loadQueue J now q st)) =
           filter (\<lambda>item. now - 604800000 < item_timestamp item \<and> retryCount item < 3) items"
  using assms by (simp add: loadQueue_def getItem_ok Let_def maxRetries_def)

lemma loadQueue_unparsed:
  assumes "map_of (entries st) storageKey = Some s" "\<forall>items. parse_queue J s \<noteq> Parsed items"
  shows "fst (loadQueue J now q st) = (if s = [] \<and> \<not> denied st then q else q\<lparr>queue := []\<rparr>)
       \<and> entries (snd (loadQueue J now q st)) = entries st"
  using assms by (cases "parse_queue J s") (auto simp: loadQueue_def getItem_def)

lemma find_absent: "x \<notin> f ` set xs \<Longrightarrow> find (\<lambda>i. f i = x) xs = None"
  by (induction xs) auto

lemma findIndex_lower: "- 1 \<le> findIndex P xs"
  by (induction xs) (auto simp: Let_def)

lemma findIndex_absent: "y \<notin> f ` set xs \<Longrightarrow> findIndex (\<lambda>i. f i = y) xs = - 1"
  by (induction xs) (auto simp: Let_def)

lemma findIndex_present: "\<exists>x\<in>set xs. P x \<Longrightarrow> findIndex P xs \<noteq> - 1"
proof (induction xs)
  case Nil
  then show ?case by simp
next
  case (Cons a xs)
  have "- 1 \<le> findIndex P xs" by (rule findIndex_lower)
  with Cons show ?case by (auto simp: Let_def)
qed

lemma filter_no_match: "y \<notin> f ` set xs \<Longrightarrow> filter (\<lambda>i. f i \<noteq> y) xs = xs"
  by (induction xs) auto

lemma map_no_match: "y \<notin> f ` set xs \<Longrightarrow> map (\<lambda>i. if f i = y then g i else i) xs = xs"
  by (induction xs) auto

lemma splice1_Cons: "0 \<le> r \<Longrightarrow> splice1 (r + 1) (x # xs) = x # splice1 r xs"
  by (simp add: splice1_def nat_add_distrib)

lemma splice1_findIndex:
  "distinct (map f xs) \<Longrightarrow> y \<in> f ` set xs \<Longrightarrow>
     splice1 (findIndex (\<lambda>i. f i = y) xs) xs = filter (\<lambda>i. f i \<noteq> y) xs"
proof (induction xs)
  case Nil
  then show ?case by simp
next
  case (Cons a xs)
  show ?case
  proof (cases "f a = y")
    case True
    with Cons.prems have "y \<notin> f ` set xs" by auto
    with True show ?thesis by (simp add: splice1_def filter_no_match)
  next
    case False
    with Cons.prems have in_rest: "y \<in> f ` set xs" and d: "distinct (map f xs)" by auto
    then have "findIndex (\<lambda>i. f i = y) xs \<noteq> - 1"
      by (intro findIndex_present) auto
    moreover have "- 1 \<le> findIndex (\<lambda>i. f i = y) xs" by (rule findIndex_lower)
    ultimately have nn: "0 \<le> findIndex (\<lambda>i. f i = y) xs" by linarith
    from False nn Cons.IH [OF d in_rest] show ?thesis
      by (simp add: Let_def splice1_Cons)
  qed
qed

lemma find_distinct:
  "distinct (map f xs) \<Longrightarrow> x \<in> set xs \<Longrightarrow> find (\<lambda>i. f i = f x) xs = Some x"
  by (induction xs) (auto simp: image_iff)

lemma update_findIndex:
  "distinct (map f xs) \<Longrightarrow> x \<in> set xs \<Longrightarrow>
     xs[nat (findIndex (\<lambda>i. f i = f x) xs) := g x] = map (\<lambda>i. if f i = f x then g i else i) xs"
proof (induction xs)
  case Nil
  then show ?case by simp
next
  case (Cons a xs)
  show ?case
  proof (cases "f a = f x")
    case True
    with Cons.prems have ax: "a = x" and "f x \<notin> f ` set xs" by (auto simp: image_iff)
    with True show ?thesis by (simp add: map_no_match)
  next
    case False
    with Cons.prems have in_rest: "x \<in> set xs" and d: "distinct (map f xs)" by auto
    then have "findIndex (\<lambda>i. f i = f x) xs \<noteq> - 1"
      by (intro findIndex_present) auto
    moreover have "- 1 \<le> findIndex (\<lambda>i. f i = f x) xs" by (rule findIndex_lower)
    ultimately have nn: "0 \<le> findIndex (\<lambda>i. f i = f x) xs" by linarith
    from False nn Cons.IH [OF d in_rest] show ?thesis
      by (simp add: Let_def nat_add_distrib)
  qed
qed

lemma add_appends:
  "queueSubmissions (options q) \<Longrightarrow>
     queue (fst (add J t_id rnd now d q st)) =
       queue q @ [\<lparr>item_id = Some (generateULID t_id rnd), item_data = d,
                    item_timestamp = now, retryCount = 0\<rparr>]
     \<and> options (fst (add J t_id rnd now d q st)) = options q"
  by (simp add: add_def Let_def)

lemma remove_absent:
  assumes "item_id item \<notin> item_id ` set (queue q)"
  shows "remove J item q st = (q, st)"
proof -
  have "findIndex (\<lambda>i. item_id i = item_id item) (queue q) = - 1"
    using assms by (rule findIndex_absent)
  then show ?thesis by (simp add: remove_def)
qed

lemma remove_present:
  assumes "distinct (map item_id (queue q))"
  shows "queue (fst (remove J item q st)) = filter (\<lambda>i. item_id i \<noteq> item_id item) (queue q)"
proof (cases "item_id item \<in> item_id ` set (queue q)")
  case True
  then have "findIndex (\<lambda>i. item_id i = item_id item) (queue q) \<noteq> - 1"
    by (intro findIndex_present) auto
  with True assms show ?thesis
    by (simp add: remove_def Let_def splice1_findIndex)
next
  case False
  then show ?thesis
    by (simp add: remove_absent filter_no_match)
qed

text \<open>
  Claim C8.  With \<^verbatim>\<open>queueSubmissions = false\<close>, \<^verbatim>\<open>add(data)\<close> is a no-op: one call, and any
  run of calls, returns the queue object and the storage backend as they were (the
  journal of storage calls included, so the backend was neither written nor read), and
  \<^verbatim>\<open>getAll()\<close> returns what it returned before, the empty list for an empty queue.
\<close>

theorem add_suppressed:
  assumes "\<not> queueSubmissions (options q)"
  shows "add J t_id rnd now d q st = (q, st)
       \<and> add_all J cs q st = (q, st)
       \<and> getAll (fst (add_all J cs q st)) = getAll q"
proof -
  have one: "\<And>t_id rnd now d. add J t_id rnd now d q st = (q, st)"
    using assms by (simp add: add_def)
  have many: "add_all J cs q st = (q, st)"
    by (induction cs) (auto simp: one)
  show ?thesis using one many by simp
qed

theorem add_suppressed_witness:
  "\<not> queueSubmissions (options closed_queue)
   \<and> add (table_JSON [] []) 1000 ''0.abc'' 1000 ''a'' closed_queue fresh_storage
       = (closed_queue, fresh_storage)
   \<and> add_all (table_JSON [] []) [(1000, ''0.abc'', 1000, ''a''), (1001, ''0.abd'', 1001, ''b'')]
         closed_queue fresh_storage
       = (closed_queue, fresh_storage)
   \<and> getAll (fst (add_all (table_JSON [] [])
         [(1000, ''0.abc'', 1000, ''a''), (1001, ''0.abd'', 1001, ''b'')]
         closed_queue fresh_storage)) = []"
proof -
  have h: "\<not> queueSubmissions (options closed_queue)"
    by (simp add: closed_queue_def closed_options_def)
  have e: "getAll closed_queue = []"
    by (simp add: closed_queue_def getAll_def)
  from add_suppressed [OF h] h e show ?thesis
    by metis
qed

text \<open>
  Claim C10.  \<^verbatim>\<open>incrementRetry(item)\<close> with an item whose id no queued item has returns
  \<^verbatim>\<open>false\<close> and leaves the queue object and the storage backend as they were: no
  \<^verbatim>\<open>retryCount\<close> changes and the backend sees no call.
\<close>

theorem incrementRetry_absent:
  "item_id item \<notin> item_id ` set (queue q) \<Longrightarrow> incrementRetry J item q st = (False, q, st)"
  by (simp add: incrementRetry_def find_absent)

theorem incrementRetry_absent_witness:
  "item_id item_B \<notin> item_id ` set (queue queue_A)
   \<and> incrementRetry (table_JSON [] []) item_B queue_A fresh_storage
     = (False, queue_A, fresh_storage)"
proof -
  have h: "item_id item_B \<notin> item_id ` set (queue queue_A)"
    by (simp add: item_A_def item_B_def queue_A_def)
  from incrementRetry_absent [OF h] h show ?thesis
    by simp
qed

text \<open>
  The methods on the store do what the methods on values do, read through \<open>view\<close>; for
  \<^verbatim>\<open>incrementRetry\<close> when the array holds no object twice.
\<close>

lemma map_fresh: "list_all (\<lambda>obj. obj < (n::nat)) xs \<Longrightarrow> map (f(n := v)) xs = map f xs"
  by (induction xs) auto

lemma splice1_map: "splice1 i (map f xs) = map f (splice1 i xs)"
  by (simp add: splice1_def take_map drop_map)

lemma getAll_ref_view:
  "contents (snd (getAll_ref Q h)) (fst (getAll_ref Q h)) = getAll (view h Q)
   \<and> (queue_ref Q < next_ref h \<longrightarrow> view (snd (getAll_ref Q h)) Q = view h Q)"
  by (simp add: getAll_ref_def Let_def contents_def getAll_def view_def)

lemma add_ref_view:
  assumes "allocated h Q"
  shows "(case add_ref J t_id rnd now d Q h st of (h', st') \<Rightarrow> (view h' Q, st'))
           = add J t_id rnd now d (view h Q) st"
  using assms
  by (simp add: add_ref_def add_def Let_def view_def contents_def allocated_def map_fresh)

lemma remove_ref_view:
  "(case remove_ref J item Q h st of (h', st') \<Rightarrow> (view h' Q, st')) = remove J item (view h Q) st"
  by (simp add: remove_ref_def remove_def Let_def view_def contents_def splice1_map)

lemma find_map_refs: "find P (map f xs) = map_option f (find (\<lambda>x. P (f x)) xs)"
  by (induction xs) auto

lemma map_upd_first:
  "distinct xs \<Longrightarrow> find (\<lambda>x. P (f x)) xs = Some obj \<Longrightarrow>
     map (f(obj := b)) xs = (map f xs)[nat (findIndex P (map f xs)) := b]"
proof (induction xs)
  case Nil
  then show ?case by simp
next
  case (Cons x xs)
  show ?case
  proof (cases "P (f x)")
    case True
    with Cons.prems have "obj = x" "x \<notin> set xs" by simp_all
    with True show ?thesis by (simp add: map_idI)
  next
    case False
    with Cons.prems have f: "find (\<lambda>x. P (f x)) xs = Some obj" and d: "distinct xs" by simp_all
    from f have "obj \<in> set xs" "P (f obj)" by (auto simp: find_Some_iff)
    then have "\<exists>y\<in>set (map f xs). P y" by auto
    then have "findIndex P (map f xs) \<noteq> - 1" by (rule findIndex_present)
    moreover have "- 1 \<le> findIndex P (map f xs)" by (rule findIndex_lower)
    ultimately have nn: "0 \<le> findIndex P (map f xs)" by linarith
    from False \<open>P (f obj)\<close> have "obj \<noteq> x" by auto
    with False nn Cons.IH [OF d f] show ?thesis
      by (simp add: Let_def nat_add_distrib)
  qed
qed

lemma incrementRetry_ref_view:
  assumes "distinct (arrays h (queue_ref Q))"
  shows "(case incrementRetry_ref J item Q h st of (ok, h', st') \<Rightarrow> (ok, view h' Q, st'))
           = incrementRetry J item (view h Q) st"
proof (cases "find (\<lambda>obj. item_id (objects h obj) = item_id item) (arrays h (queue_ref Q))")
  case None
  then show ?thesis
    by (simp add: incrementRetry_ref_def incrementRetry_def view_def contents_def find_map_refs)
next
  case (Some obj)
  let ?b = "(objects h obj)\<lparr>retryCount := retryCount (objects h obj) + 1\<rparr>"
  have "map ((objects h)(obj := ?b)) (arrays h (queue_ref Q)) =
      (map (objects h) (arrays h (queue_ref Q)))
        [nat (findIndex (\<lambda>i. item_id i = item_id item) (map (objects h) (arrays h (queue_ref Q)))) := ?b]"
    by (rule map_upd_first [OF assms, where P = "\<lambda>i. item_id i = item_id item"]) (rule Some)
  with Some show ?thesis
    by (simp add: incrementRetry_ref_def incrementRetry_def view_def contents_def find_map_refs
          Let_def)
qed

text \<open>
  The array \<^verbatim>\<open>getAll()\<close> returns: a new one, with the items of the queue; \<^verbatim>\<open>add\<close> and
  \<^verbatim>\<open>remove\<close> afterwards change the queue and not the returned array; \<^verbatim>\<open>incrementRetry\<close>
  changes an item object that both arrays hold.
\<close>

lemma getAll_ref_copy:
  "allocated h Q \<longrightarrow>
     (case getAll_ref Q h of
        (r, h1) \<Rightarrow>
          r \<noteq> queue_ref Q
          \<and> contents h1 r = getAll (view h Q)
          \<and> view h1 Q = view h Q
          \<and> (case add_ref J t_id rnd now d Q h1 st of
               (h2, st2) \<Rightarrow>
                 contents h2 r = contents h1 r
                 \<and> (view h2 Q, st2) = add J t_id rnd now d (view h1 Q) st
                 \<and> (queueSubmissions (obj_options Q) \<longrightarrow>
                      getAll (view h2 Q) =
                        getAll (view h1 Q) @
                          [\<lparr>item_id = Some (generateULID t_id rnd), item_data = d,
                            item_timestamp = now, retryCount = 0\<rparr>]))
          \<and> (case remove_ref J item Q h1 st of
               (h2, st2) \<Rightarrow>
                 contents h2 r = contents h1 r
                 \<and> (view h2 Q, st2) = remove J item (view h1 Q) st)
          \<and> (case incrementRetry_ref J item Q h1 st of
               (ok, h2, st2) \<Rightarrow>
                 arrays h2 r = arrays h1 r \<and> contents h2 r = getAll (view h2 Q)
                 \<and> (distinct (arrays h (queue_ref Q)) \<longrightarrow>
                      (ok, view h2 Q, st2) = incrementRetry J item (view h1 Q) st)))"
proof
  assume a: "allocated h Q"
  define r where "r = next_ref h"
  define h1 where "h1 = h\<lparr>arrays := (arrays h)(r := arrays h (queue_ref Q)), next_ref := r + 1\<rparr>"
  have g: "getAll_ref Q h = (r, h1)" by (simp add: getAll_ref_def r_def h1_def Let_def)
  from a have ne: "r \<noteq> queue_ref Q" and lt: "queue_ref Q < r"
    and old: "list_all (\<lambda>obj. obj < r) (arrays h (queue_ref Q))"
    by (simp_all add: allocated_def r_def)
  have ar: "arrays h1 r = arrays h (queue_ref Q)" "arrays h1 (queue_ref Q) = arrays h (queue_ref Q)"
    "objects h1 = objects h" "next_ref h1 = r + 1"
    using ne by (simp_all add: h1_def)
  have c1: "contents h1 r = getAll (view h Q)"
    by (simp add: contents_def ar getAll_def view_def)
  have v1: "view h1 Q = view h Q"
    by (simp add: view_def contents_def ar)
  have old1: "list_all (\<lambda>obj. obj < r + 1) (arrays h (queue_ref Q))"
    using old by (auto simp: list_all_iff less_Suc_eq)
  have add: "case add_ref J t_id rnd now d Q h1 st of
               (h2, st2) \<Rightarrow>
                 contents h2 r = contents h1 r
                 \<and> (view h2 Q, st2) = add J t_id rnd now d (view h1 Q) st
                 \<and> (queueSubmissions (obj_options Q) \<longrightarrow>
                      getAll (view h2 Q) =
                        getAll (view h1 Q) @
                          [\<lparr>item_id = Some (generateULID t_id rnd), item_data = d,
                            item_timestamp = now, retryCount = 0\<rparr>])"
  proof -
    have al: "allocated h1 Q"
      using lt old1 by (simp add: allocated_def ar)
    have "case add_ref J t_id rnd now d Q h1 st of
            (h2, st2) \<Rightarrow>
              contents h2 r = contents h1 r
              \<and> (queueSubmissions (obj_options Q) \<longrightarrow>
                   getAll (view h2 Q) =
                     getAll (view h1 Q) @
                       [\<lparr>item_id = Some (generateULID t_id rnd), item_data = d,
                         item_timestamp = now, retryCount = 0\<rparr>])"
      using ne old1
      by (simp add: add_ref_def Let_def contents_def ar getAll_def view_def map_fresh)
    with add_ref_view [OF al, where J = J and t_id = t_id and rnd = rnd and now = now and d = d and st = st] show ?thesis
      by (auto split: prod.splits)
  qed
  have rem: "case remove_ref J item Q h1 st of
               (h2, st2) \<Rightarrow>
                 contents h2 r = contents h1 r
                 \<and> (view h2 Q, st2) = remove J item (view h1 Q) st"
    using ne remove_ref_view [where J = J and item = item and Q = Q and h = h1 and st = st]
    by (auto simp: remove_ref_def Let_def contents_def split: prod.splits if_splits)
  have inc: "case incrementRetry_ref J item Q h1 st of
               (ok, h2, st2) \<Rightarrow>
                 arrays h2 r = arrays h1 r \<and> contents h2 r = getAll (view h2 Q)
                 \<and> (distinct (arrays h (queue_ref Q)) \<longrightarrow>
                      (ok, view h2 Q, st2) = incrementRetry J item (view h1 Q) st)"
  proof -
    have "case incrementRetry_ref J item Q h1 st of
            (ok, h2, st2) \<Rightarrow>
              arrays h2 r = arrays h1 r \<and> contents h2 r = getAll (view h2 Q)"
      by (simp add: incrementRetry_ref_def Let_def contents_def ar getAll_def view_def
            split: option.splits)
    moreover have "(case incrementRetry_ref J item Q h1 st of
                      (ok, h2, st2) \<Rightarrow> (ok, view h2 Q, st2))
                   = incrementRetry J item (view h1 Q) st"
      if "distinct (arrays h (queue_ref Q))"
      using that by (intro incrementRetry_ref_view) (simp add: ar)
    ultimately show ?thesis
      by (auto split: prod.splits)
  qed
  from ne c1 v1 add rem inc show "case getAll_ref Q h of
        (r, h1) \<Rightarrow>
          r \<noteq> queue_ref Q
          \<and> contents h1 r = getAll (view h Q)
          \<and> view h1 Q = view h Q
          \<and> (case add_ref J t_id rnd now d Q h1 st of
               (h2, st2) \<Rightarrow>
                 contents h2 r = contents h1 r
                 \<and> (view h2 Q, st2) = add J t_id rnd now d (view h1 Q) st
                 \<and> (queueSubmissions (obj_options Q) \<longrightarrow>
                      getAll (view h2 Q) =
                        getAll (view h1 Q) @
                          [\<lparr>item_id = Some (generateULID t_id rnd), item_data = d,
                            item_timestamp = now, retryCount = 0\<rparr>]))
          \<and> (case remove_ref J item Q h1 st of
               (h2, st2) \<Rightarrow>
                 contents h2 r = contents h1 r
                 \<and> (view h2 Q, st2) = remove J item (view h1 Q) st)
          \<and> (case incrementRetry_ref J item Q h1 st of
               (ok, h2, st2) \<Rightarrow>
                 arrays h2 r = arrays h1 r \<and> contents h2 r = getAll (view h2 Q)
                 \<and> (distinct (arrays h (queue_ref Q)) \<longrightarrow>
                      (ok, view h2 Q, st2) = incrementRetry J item (view h1 Q) st))"
    by (simp add: g)
qed

text \<open>
  Claim C7.  \<^verbatim>\<open>add\<close> appends at the end, so \<^verbatim>\<open>getAll()\<close> lists the items in insertion order.
  \<^verbatim>\<open>remove(item)\<close> is a no-op when no queued item has the id, and otherwise, ids being
  distinct, deletes the item with that id and keeps the others in their order.  Enqueuing
  \<open>a\<close>, \<open>b\<close>, \<open>c\<close> on an empty queue gives \<open>[a, b, c]\<close>, and removing the second item gives
  \<open>[a, c]\<close>, provided the three generated ids differ.  \<^verbatim>\<open>getAll()\<close> returns a copy and not
  the live list: the array it returns is another array than \<^verbatim>\<open>this.queue\<close>, it holds the
  items of the queue in their order, and an \<^verbatim>\<open>add\<close> or a \<^verbatim>\<open>remove\<close> afterwards changes the
  queue and leaves the returned array as it was.  The copy is shallow: the two arrays
  hold the same item objects, so after an \<^verbatim>\<open>incrementRetry\<close> the returned array shows the
  new \<^verbatim>\<open>retryCount\<close>, as the queue does.  The copy clause is stated on the store of arrays
  and objects, where each method does to the queue, read through its references, what
  the method on values does.
\<close>

theorem getAll_order_remove:
  "(queueSubmissions (options q) \<longrightarrow>
      getAll (fst (add J t_id rnd now d q st)) =
        getAll q @ [\<lparr>item_id = Some (generateULID t_id rnd), item_data = d,
                      item_timestamp = now, retryCount = 0\<rparr>])
   \<and> (item_id item \<notin> item_id ` set (getAll q) \<longrightarrow> remove J item q st = (q, st))
   \<and> (distinct (map item_id (getAll q)) \<longrightarrow>
        getAll (fst (remove J item q st)) = filter (\<lambda>i. item_id i \<noteq> item_id item) (getAll q))
   \<and> (queueSubmissions (options q) \<and> getAll q = []
        \<and> distinct [generateULID ta ra, generateULID tb rb, generateULID tc rc] \<longrightarrow>
        (case add_all J [(ta, ra, na, a), (tb, rb, nb, b), (tc, rc, nc, c)] q st of
           (q3, st3) \<Rightarrow>
             map item_data (getAll q3) = [a, b, c]
             \<and> map item_data (getAll (fst (remove J (getAll q3 ! 1) q3 st3))) = [a, c]))
   \<and> (allocated mem Q \<longrightarrow>
        (case getAll_ref Q mem of
           (r, mem1) \<Rightarrow>
             r \<noteq> queue_ref Q
             \<and> contents mem1 r = getAll (view mem Q)
             \<and> view mem1 Q = view mem Q
             \<and> (case add_ref J t_id rnd now d Q mem1 st of
                  (mem2, st2) \<Rightarrow>
                    contents mem2 r = contents mem1 r
                    \<and> (view mem2 Q, st2) = add J t_id rnd now d (view mem1 Q) st
                    \<and> (queueSubmissions (obj_options Q) \<longrightarrow>
                         getAll (view mem2 Q) =
                           getAll (view mem1 Q) @
                             [\<lparr>item_id = Some (generateULID t_id rnd), item_data = d,
                               item_timestamp = now, retryCount = 0\<rparr>]))
             \<and> (case remove_ref J item Q mem1 st of
                  (mem2, st2) \<Rightarrow>
                    contents mem2 r = contents mem1 r
                    \<and> (view mem2 Q, st2) = remove J item (view mem1 Q) st)
             \<and> (case incrementRetry_ref J item Q mem1 st of
                  (ok, mem2, st2) \<Rightarrow>
                    arrays mem2 r = arrays mem1 r \<and> contents mem2 r = getAll (view mem2 Q)
                    \<and> (distinct (arrays mem (queue_ref Q)) \<longrightarrow>
                         (ok, view mem2 Q, st2) = incrementRetry J item (view mem1 Q) st))))"
proof (intro conjI)
  show "allocated mem Q \<longrightarrow>
        (case getAll_ref Q mem of
           (r, mem1) \<Rightarrow>
             r \<noteq> queue_ref Q
             \<and> contents mem1 r = getAll (view mem Q)
             \<and> view mem1 Q = view mem Q
             \<and> (case add_ref J t_id rnd now d Q mem1 st of
                  (mem2, st2) \<Rightarrow>
                    contents mem2 r = contents mem1 r
                    \<and> (view mem2 Q, st2) = add J t_id rnd now d (view mem1 Q) st
                    \<and> (queueSubmissions (obj_options Q) \<longrightarrow>
                         getAll (view mem2 Q) =
                           getAll (view mem1 Q) @
                             [\<lparr>item_id = Some (generateULID t_id rnd), item_data = d,
                               item_timestamp = now, retryCount = 0\<rparr>]))
             \<and> (case remove_ref J item Q mem1 st of
                  (mem2, st2) \<Rightarrow>
                    contents mem2 r = contents mem1 r
                    \<and> (view mem2 Q, st2) = remove J item (view mem1 Q) st)
             \<and> (case incrementRetry_ref J item Q mem1 st of
                  (ok, mem2, st2) \<Rightarrow>
                    arrays mem2 r = arrays mem1 r \<and> contents mem2 r = getAll (view mem2 Q)
                    \<and> (distinct (arrays mem (queue_ref Q)) \<longrightarrow>
                         (ok, view mem2 Q, st2) = incrementRetry J item (view mem1 Q) st)))"
    by (rule getAll_ref_copy)
next
  show "queueSubmissions (options q) \<longrightarrow>
      getAll (fst (add J t_id rnd now d q st)) =
        getAll q @ [\<lparr>item_id = Some (generateULID t_id rnd), item_data = d,
                      item_timestamp = now, retryCount = 0\<rparr>]"
    by (simp add: getAll_def add_appends)
next
  show "item_id item \<notin> item_id ` set (getAll q) \<longrightarrow> remove J item q st = (q, st)"
    by (simp add: getAll_def remove_absent)
next
  show "distinct (map item_id (getAll q)) \<longrightarrow>
        getAll (fst (remove J item q st)) = filter (\<lambda>i. item_id i \<noteq> item_id item) (getAll q)"
    by (simp add: getAll_def remove_present)
next
  show "queueSubmissions (options q) \<and> getAll q = []
        \<and> distinct [generateULID ta ra, generateULID tb rb, generateULID tc rc] \<longrightarrow>
        (case add_all J [(ta, ra, na, a), (tb, rb, nb, b), (tc, rc, nc, c)] q st of
           (q3, st3) \<Rightarrow>
             map item_data (getAll q3) = [a, b, c]
             \<and> map item_data (getAll (fst (remove J (getAll q3 ! 1) q3 st3))) = [a, c])"
  proof
  assume h: "queueSubmissions (options q) \<and> getAll q = []
        \<and> distinct [generateULID ta ra, generateULID tb rb, generateULID tc rc]"
  obtain q1 st1 where s1: "add J ta ra na a q st = (q1, st1)" by force
  obtain q2 st2 where s2: "add J tb rb nb b q1 st1 = (q2, st2)" by force
  obtain q3 st3 where s3: "add J tc rc nc c q2 st2 = (q3, st3)" by force
  let ?A = "\<lparr>item_id = Some (generateULID ta ra), item_data = a, item_timestamp = na, retryCount = 0\<rparr>"
  let ?B = "\<lparr>item_id = Some (generateULID tb rb), item_data = b, item_timestamp = nb, retryCount = 0\<rparr>"
  let ?C = "\<lparr>item_id = Some (generateULID tc rc), item_data = c, item_timestamp = nc, retryCount = 0\<rparr>"
  from h have q0: "queue q = []" by (simp add: getAll_def)
  from h add_appends [of q J ta ra na a st] s1 q0
  have q1: "queue q1 = [?A]" "queueSubmissions (options q1)" by simp_all
  from q1 add_appends [of q1 J tb rb nb b st1] s2
  have q2: "queue q2 = [?A, ?B]" "queueSubmissions (options q2)" by simp_all
  from q2 add_appends [of q2 J tc rc nc c st2] s3
  have q3: "queue q3 = [?A, ?B, ?C]" by simp
  from h q3 have d: "distinct (map item_id (queue q3))" by simp
  have run: "add_all J [(ta, ra, na, a), (tb, rb, nb, b), (tc, rc, nc, c)] q st = (q3, st3)"
    by (simp add: s1 s2 s3)
  have "queue (fst (remove J (queue q3 ! 1) q3 st3)) =
      filter (\<lambda>i. item_id i \<noteq> item_id (queue q3 ! 1)) (queue q3)"
    by (rule remove_present [OF d])
  with h q3 have "queue (fst (remove J (queue q3 ! 1) q3 st3)) = [?A, ?C]"
    by auto
  with q3 run show "case add_all J [(ta, ra, na, a), (tb, rb, nb, b), (tc, rc, nc, c)] q st of
           (q3, st3) \<Rightarrow>
             map item_data (getAll q3) = [a, b, c]
             \<and> map item_data (getAll (fst (remove J (getAll q3 ! 1) q3 st3))) = [a, c]"
    by (simp add: getAll_def)
  qed
qed

lemma demo_ids:
  "generateULID 1000 ''0.abc'' = ''00000000RS0000000000000ABC''
   \<and> generateULID 1001 ''0.abd'' = ''00000000RT0000000000000ABD''
   \<and> generateULID 1002 ''0.abe'' = ''00000000RU0000000000000ABE''"
  by code_simp

theorem getAll_order_remove_witness:
  "queueSubmissions (options open_queue) \<and> getAll open_queue = []
   \<and> distinct [generateULID 1000 ''0.abc'', generateULID 1001 ''0.abd'', generateULID 1002 ''0.abe'']
   \<and> item_id item_B \<notin> item_id ` set (getAll queue_A)
   \<and> distinct (map item_id (getAll queue_A))
   \<and> getAll (fst (add (table_JSON [] []) 1001 ''0.abd'' 1001 ''b'' queue_A fresh_storage)) =
        [item_A, \<lparr>item_id = Some ''00000000RT0000000000000ABD'', item_data = ''b'',
                   item_timestamp = 1001, retryCount = 0\<rparr>]
   \<and> remove (table_JSON [] []) item_B queue_A fresh_storage = (queue_A, fresh_storage)
   \<and> getAll (fst (remove (table_JSON [] []) item_A queue_A fresh_storage)) = []
   \<and> (case add_all (table_JSON [] []) abc_calls open_queue fresh_storage of
        (q3, st3) \<Rightarrow>
          map item_data (getAll q3) = [''a'', ''b'', ''c'']
          \<and> map item_data (getAll (fst (remove (table_JSON [] []) (getAll q3 ! 1) q3 st3)))
              = [''a'', ''c''])
   \<and> allocated demo_store demo_obj
   \<and> distinct (arrays demo_store (queue_ref demo_obj))
   \<and> (case getAll_ref demo_obj demo_store of
        (r, mem1) \<Rightarrow>
          r \<noteq> queue_ref demo_obj
          \<and> contents mem1 r = [item_A]
          \<and> (case add_ref (table_JSON [] []) 1001 ''0.abd'' 1001 ''b'' demo_obj mem1 fresh_storage of
               (mem2, st2) \<Rightarrow>
                 contents mem2 r = [item_A]
                 \<and> getAll (view mem2 demo_obj) =
                     [item_A, \<lparr>item_id = Some ''00000000RT0000000000000ABD'', item_data = ''b'',
                                item_timestamp = 1001, retryCount = 0\<rparr>])
          \<and> (case remove_ref (table_JSON [] []) item_A demo_obj mem1 fresh_storage of
               (mem2, st2) \<Rightarrow> contents mem2 r = [item_A] \<and> getAll (view mem2 demo_obj) = [])
          \<and> (case incrementRetry_ref (table_JSON [] []) item_A demo_obj mem1 fresh_storage of
               (ok, mem2, st2) \<Rightarrow>
                 ok \<and> contents mem2 r = [item_A\<lparr>retryCount := 1\<rparr>]
                 \<and> getAll (view mem2 demo_obj) = [item_A\<lparr>retryCount := 1\<rparr>]))"
proof -
  have h1: "queueSubmissions (options open_queue) \<and> getAll open_queue = []
     \<and> distinct [generateULID 1000 ''0.abc'', generateULID 1001 ''0.abd'', generateULID 1002 ''0.abe'']"
    by (simp add: open_queue_def demo_options_def getAll_def demo_ids)
  have h2: "item_id item_B \<notin> item_id ` set (getAll queue_A)"
    by (simp add: queue_A_def item_A_def item_B_def getAll_def)
  have h3: "distinct (map item_id (getAll queue_A))"
    by (simp add: queue_A_def getAll_def)
  have h4: "queueSubmissions (options queue_A)"
    by (simp add: queue_A_def demo_options_def)
  have f: "filter (\<lambda>i. item_id i \<noteq> item_id item_A) (getAll queue_A) = []"
    by (simp add: queue_A_def getAll_def)
  have g: "getAll queue_A = [item_A]"
    by (simp add: queue_A_def getAll_def)
  note T = getAll_order_remove [where q = queue_A and J = "table_JSON [] []" and t_id = 1001
      and rnd = "''0.abd''" and now = 1001 and d = "''b''" and st = fresh_storage
      and item = item_B]
    getAll_order_remove [where q = queue_A and J = "table_JSON [] []" and st = fresh_storage
      and item = item_A]
    getAll_order_remove [where q = open_queue and J = "table_JSON [] []"
      and st = fresh_storage and ta = 1000 and ra = "''0.abc''" and na = 1000 and a = "''a''"
      and tb = 1001 and rb = "''0.abd''" and nb = 1001 and b = "''b''"
      and tc = 1002 and rc = "''0.abe''" and nc = 1002 and c = "''c''"]
  from T h1 h2 h3 h4 have vals: "queueSubmissions (options open_queue) \<and> getAll open_queue = []
   \<and> distinct [generateULID 1000 ''0.abc'', generateULID 1001 ''0.abd'', generateULID 1002 ''0.abe'']
   \<and> item_id item_B \<notin> item_id ` set (getAll queue_A)
   \<and> distinct (map item_id (getAll queue_A))
   \<and> getAll (fst (add (table_JSON [] []) 1001 ''0.abd'' 1001 ''b'' queue_A fresh_storage)) =
        [item_A, \<lparr>item_id = Some ''00000000RT0000000000000ABD'', item_data = ''b'',
                   item_timestamp = 1001, retryCount = 0\<rparr>]
   \<and> remove (table_JSON [] []) item_B queue_A fresh_storage = (queue_A, fresh_storage)
   \<and> getAll (fst (remove (table_JSON [] []) item_A queue_A fresh_storage)) = []
   \<and> (case add_all (table_JSON [] []) abc_calls open_queue fresh_storage of
        (q3, st3) \<Rightarrow>
          map item_data (getAll q3) = [''a'', ''b'', ''c'']
          \<and> map item_data (getAll (fst (remove (table_JSON [] []) (getAll q3 ! 1) q3 st3)))
              = [''a'', ''c''])"
    by (simp add: f g demo_ids abc_calls_def)
  have a: "allocated demo_store demo_obj"
    by (simp add: allocated_def demo_store_def demo_obj_def)
  have id: "generateULID 1001 ''0.abd'' = ''00000000RT0000000000000ABD''"
    using demo_ids by simp
  note U = getAll_order_remove [where mem = demo_store and Q = demo_obj
      and J = "table_JSON [] []" and t_id = 1001 and rnd = "''0.abd''" and now = 1001
      and d = "''b''" and st = fresh_storage and item = item_A, THEN conjunct2, THEN conjunct2,
      THEN conjunct2, THEN conjunct2, THEN mp, OF a]
  have q: "queueSubmissions (obj_options demo_obj)"
    by (simp add: demo_obj_def demo_options_def)
  have g0: "getAll (view demo_store demo_obj) = [item_A]"
    by (simp add: view_def contents_def getAll_def demo_store_def demo_obj_def)
  have refs: "(case getAll_ref demo_obj demo_store of
        (r, mem1) \<Rightarrow>
          r \<noteq> queue_ref demo_obj
          \<and> contents mem1 r = [item_A]
          \<and> (case add_ref (table_JSON [] []) 1001 ''0.abd'' 1001 ''b'' demo_obj mem1 fresh_storage of
               (mem2, st2) \<Rightarrow>
                 contents mem2 r = [item_A]
                 \<and> getAll (view mem2 demo_obj) =
                     [item_A, \<lparr>item_id = Some ''00000000RT0000000000000ABD'', item_data = ''b'',
                                item_timestamp = 1001, retryCount = 0\<rparr>])
          \<and> (case remove_ref (table_JSON [] []) item_A demo_obj mem1 fresh_storage of
               (mem2, st2) \<Rightarrow> contents mem2 r = [item_A] \<and> getAll (view mem2 demo_obj) = [])
          \<and> (case incrementRetry_ref (table_JSON [] []) item_A demo_obj mem1 fresh_storage of
               (ok, mem2, st2) \<Rightarrow>
                 ok \<and> contents mem2 r = [item_A\<lparr>retryCount := 1\<rparr>]
                 \<and> getAll (view mem2 demo_obj) = [item_A\<lparr>retryCount := 1\<rparr>]))"
    using U q
    by (simp add: getAll_ref_def add_ref_def remove_ref_def incrementRetry_ref_def Let_def
          contents_def view_def getAll_def demo_store_def demo_obj_def demo_options_def id
          splice1_def item_A_def maxRetries_def)
  have dist: "distinct (arrays demo_store (queue_ref demo_obj))"
    by (simp add: demo_store_def demo_obj_def)
  from vals a dist refs show ?thesis
    by (elim conjE) (intro conjI; assumption)
qed

lemma print_junk: "print_queue [junk_item] = junk_text"
  by (simp add: print_queue_def print_item_def print_int_def junk_item_def junk_text_def)

text \<open>
  Claim C4, as stated, fails on stored text that decodes to an array.  \<^verbatim>\<open>loadQueue\<close> does
  not check that the elements are queue items: it reads \<^verbatim>\<open>timestamp\<close> and \<^verbatim>\<open>retryCount\<close> and
  nothing else.  The stored array here has one object without an \<^verbatim>\<open>id\<close>, so the text is no
  JSON of a queue-item list; the object has a recent timestamp and no retries, the filter
  keeps it, and the constructed queue has size 1.
\<close>

theorem junk_array_kept:
  "getItem storageKey junk_storage
      = (Inr (Some junk_text), logged (Call_getItem storageKey) junk_storage)
   \<and> parse_queue (table_JSON [[junk_item]] []) junk_text = Parsed [junk_item]
   \<and> item_id junk_item = None
   \<and> size_queue (fst (OfflineQueue_new (table_JSON [[junk_item]] []) 2000 demo_options
        junk_storage)) = 1
   \<and> getAll (fst (OfflineQueue_new (table_JSON [[junk_item]] []) 2000 demo_options
        junk_storage)) = [junk_item]"
proof -
  have p: "parse_queue (table_JSON [[junk_item]] []) junk_text = Parsed [junk_item]"
    by (simp add: table_JSON_def print_junk)
  have ne: "junk_text \<noteq> []" by (simp add: junk_text_def)
  have g: "getItem storageKey junk_storage
       = (Inr (Some junk_text), logged (Call_getItem storageKey) junk_storage)"
    by (simp add: getItem_def junk_storage_def fresh_storage_def)
  have "queue (fst (loadQueue (table_JSON [[junk_item]] []) 2000
           \<lparr>options = demo_options, queue = []\<rparr> junk_storage)) =
        filter (\<lambda>item. 2000 - (7 * 24 * 60 * 60 * 1000) < item_timestamp item
                  \<and> retryCount item < maxRetries) [junk_item]"
    by (simp add: loadQueue_def g p ne Let_def)
  also have "\<dots> = [junk_item]"
    by (simp add: junk_item_def maxRetries_def)
  finally show ?thesis
    by (simp add: p g OfflineQueue_new_def demo_options_def getAll_def size_queue_def)
       (simp add: junk_item_def)
qed

text \<open>
  Claim C4, amended.  When \<^verbatim>\<open>JSON.parse\<close> throws on the text stored under the queue's key,
  or the text decodes to a value that is no array, the constructor with \<^verbatim>\<open>enabled = true\<close>
  returns an empty queue: \<^verbatim>\<open>size()\<close> is 0 and \<^verbatim>\<open>getAll()\<close> is empty.  It throws nothing:
  \<^verbatim>\<open>loadQueue\<close> catches every exception, so the constructor of the model has no exceptional
  result.  The corrupted text stays in the backend.
\<close>

theorem corrupted_queue_loads_empty:
  assumes "enabled opts" "map_of (entries st) storageKey = Some s"
    "\<forall>items. parse_queue J s \<noteq> Parsed items"
  shows "size_queue (fst (OfflineQueue_new J now opts st)) = 0
       \<and> getAll (fst (OfflineQueue_new J now opts st)) = []
       \<and> entries (snd (OfflineQueue_new J now opts st)) = entries st"
  using assms loadQueue_unparsed [OF assms(2,3), of now "\<lparr>options = opts, queue = []\<rparr>"]
  by (simp add: OfflineQueue_new_def size_queue_def getAll_def)

theorem corrupted_queue_loads_empty_witness:
  "enabled demo_options
   \<and> map_of (entries corrupted_storage) storageKey = Some ''<html>not json</html>''
   \<and> (\<forall>items. parse_queue (table_JSON [[item_A]] []) ''<html>not json</html>'' \<noteq> Parsed items)
   \<and> size_queue (fst (OfflineQueue_new (table_JSON [[item_A]] []) 2000 demo_options
        corrupted_storage)) = 0
   \<and> getAll (fst (OfflineQueue_new (table_JSON [[item_A]] []) 2000 demo_options
        corrupted_storage)) = []"
proof -
  have h1: "enabled demo_options" by (simp add: demo_options_def)
  have h2: "map_of (entries corrupted_storage) storageKey = Some ''<html>not json</html>''"
    by (simp add: corrupted_storage_def)
  have h3: "\<forall>items. parse_queue (table_JSON [[item_A]] []) ''<html>not json</html>'' \<noteq> Parsed items"
    by (simp add: table_JSON_def print_queue_def)
  from corrupted_queue_loads_empty [OF h1 h2 h3] h1 h2 h3 show ?thesis
    by simp
qed

text \<open>
  What the load does with a stored list: it keeps the items less than seven days old
  with fewer than three retries, in order, and saves the kept list when it is shorter.
\<close>

lemma loadQueue_sweep:
  assumes "\<not> denied st" "map_of (entries st) storageKey = Some s" "s \<noteq> []"
    "parse_queue J s = Parsed items"
  shows "snd (loadQueue J now q st) =
           (if length (filter (\<lambda>item. now - 604800000 < item_timestamp item
                                  \<and> retryCount item < 3) items) \<noteq> length items
            then saveQueue J (q\<lparr>queue := filter (\<lambda>item. now - 604800000 < item_timestamp item
                                                  \<and> retryCount item < 3) items\<rparr>)
                   (logged (Call_getItem storageKey) st)
            else logged (Call_getItem storageKey) st)"
  using assms by (simp add: loadQueue_def getItem_ok Let_def maxRetries_def)

lemma loaded_items_fresh:
  assumes "\<not> denied st" "map_of (entries st) storageKey = Some s" "s \<noteq> []"
    "parse_queue J s = Parsed items" "i \<in> set (queue (fst (loadQueue J now q st)))"
  shows "retryCount i < 3 \<and> now - item_timestamp i < 7 * 24 * 60 * 60 * 1000"
  using assms(5) unfolding loadQueue_parsed [OF assms(1-4)] by simp

lemma print_week_old: "print_queue [week_old_item] = week_old_text"
  by (simp add: print_queue_def print_item_def print_int_def week_old_item_def week_old_text_def)

text \<open>
  Claim C3, at the boundary.  An item queued exactly seven days before the load, with
  \<^verbatim>\<open>retryCount = 0\<close>, is dropped: \<^verbatim>\<open>loadQueue\<close> keeps an item when
  \<^verbatim>\<open>item.timestamp > cutoff\<close>, that is when its age is less than seven days, so an age of
  exactly seven days, which does not exceed seven days, is dropped as well.
\<close>

theorem week_old_item_dropped:
  "604801000 - item_timestamp week_old_item = 7 * 24 * 60 * 60 * 1000
   \<and> retryCount week_old_item = 0
   \<and> getItem storageKey week_old_storage
       = (Inr (Some week_old_text), logged (Call_getItem storageKey) week_old_storage)
   \<and> parse_queue (table_JSON [[week_old_item]] []) week_old_text = Parsed [week_old_item]
   \<and> getAll (fst (OfflineQueue_new (table_JSON [[week_old_item]] []) 604801000 demo_options
        week_old_storage)) = []"
proof -
  have p: "parse_queue (table_JSON [[week_old_item]] []) week_old_text = Parsed [week_old_item]"
    by (simp add: table_JSON_def print_week_old)
  have ne: "week_old_text \<noteq> []" by (simp add: week_old_text_def)
  have g: "getItem storageKey week_old_storage
       = (Inr (Some week_old_text), logged (Call_getItem storageKey) week_old_storage)"
    by (simp add: getItem_def week_old_storage_def fresh_storage_def)
  have "queue (fst (loadQueue (table_JSON [[week_old_item]] []) 604801000
           \<lparr>options = demo_options, queue = []\<rparr> week_old_storage)) =
        filter (\<lambda>item. 604801000 - (7 * 24 * 60 * 60 * 1000) < item_timestamp item
                  \<and> retryCount item < maxRetries) [week_old_item]"
    by (simp add: loadQueue_def g p ne Let_def)
  also have "\<dots> = []"
    by (simp add: week_old_item_def)
  finally show ?thesis
    by (simp add: p g OfflineQueue_new_def demo_options_def getAll_def) (simp add: week_old_item_def)
qed

lemma print_RS: "print_queue [item_RS] = text_RS"
  by (simp add: print_queue_def print_item_def print_int_def item_RS_def text_RS_def)

lemma OfflineQueue_new_parsed:
  assumes "enabled opts" "\<not> denied st" "map_of (entries st) storageKey = Some s" "s \<noteq> []"
    "parse_queue J s = Parsed items"
  shows "getAll (fst (OfflineQueue_new J now opts st)) =
           filter (\<lambda>item. now - 604800000 < item_timestamp item \<and> retryCount item < 3) items"
  using assms(1) loadQueue_parsed [OF assms(2-5)]
  by (simp add: OfflineQueue_new_def getAll_def)

text \<open>
  Claim C6, as stated for every \<^verbatim>\<open>add\<close> and every later construction, fails in two ways
  that the code has by design.  A queue constructed eight days after the \<^verbatim>\<open>add\<close> does not
  have the item: the load drops items older than seven days.  And on a backend without
  room for the text, \<^verbatim>\<open>saveQueue\<close> swallows the \<^verbatim>\<open>QuotaExceededError\<close>: the item is in
  \<^verbatim>\<open>getAll()\<close> of the queue that added it and in no queue constructed afterwards.
\<close>

theorem reload_without_item:
  "queueSubmissions (options open_queue)
   \<and> getAll (fst (add (table_JSON [[item_RS]] []) 1000 ''0.abc'' 1000 ''a'' open_queue
        fresh_storage)) = [item_RS]
   \<and> getAll (fst (OfflineQueue_new (table_JSON [[item_RS]] []) 691201000 demo_options
        (snd (add (table_JSON [[item_RS]] []) 1000 ''0.abc'' 1000 ''a'' open_queue
           fresh_storage)))) = []
   \<and> getAll (fst (add (table_JSON [[item_RS]] []) 1000 ''0.abc'' 1000 ''a'' open_queue
        tiny_storage)) = [item_RS]
   \<and> getAll (fst (OfflineQueue_new (table_JSON [[item_RS]] []) 2000 demo_options
        (snd (add (table_JSON [[item_RS]] []) 1000 ''0.abc'' 1000 ''a'' open_queue
           tiny_storage)))) = []"
proof -
  let ?J = "table_JSON [[item_RS]] []"
  have id: "generateULID 1000 ''0.abc'' = ''00000000RS0000000000000ABC''"
    by code_simp
  have q: "queueSubmissions (options open_queue)" "enabled demo_options"
    by (simp_all add: open_queue_def demo_options_def)
  have a: "fst (add ?J 1000 ''0.abc'' 1000 ''a'' open_queue st)
      = \<lparr>options = demo_options, queue = [item_RS]\<rparr>" for st
    by (simp add: add_def Let_def open_queue_def demo_options_def id item_RS_def)
  have s: "snd (add ?J 1000 ''0.abc'' 1000 ''a'' open_queue st)
      = snd (setItem storageKey text_RS st)" for st
    by (simp add: add_def Let_def open_queue_def demo_options_def id saveQueue_def table_JSON_def
          print_RS [unfolded item_RS_def])
  have acc: "accepts fresh_storage storageKey text_RS"
    by (simp add: accepts_def fresh_storage_def storage_size_def text_RS_def storageKey_def)
  have st1: "map_of (entries (snd (setItem storageKey text_RS fresh_storage))) storageKey
      = Some text_RS" "\<not> denied (snd (setItem storageKey text_RS fresh_storage))"
    by (simp_all add: setItem_accepted [OF acc] update_conv') (simp add: fresh_storage_def)
  have p: "parse_queue ?J text_RS = Parsed [item_RS]"
    by (simp add: table_JSON_def print_RS)
  have ne: "text_RS \<noteq> []" by (simp add: text_RS_def)
  have late: "getAll (fst (OfflineQueue_new ?J 691201000 demo_options
        (snd (setItem storageKey text_RS fresh_storage)))) = []"
    unfolding OfflineQueue_new_parsed [OF q(2) st1(2) st1(1) ne p]
    by (simp add: item_RS_def)
  have full: "snd (setItem storageKey text_RS tiny_storage)
      = logged (Call_setItem storageKey text_RS) tiny_storage"
    by (simp add: setItem_def tiny_storage_def storage_size_def text_RS_def storageKey_def)
  have refused: "getAll (fst (OfflineQueue_new ?J 2000 demo_options
        (logged (Call_setItem storageKey text_RS) tiny_storage))) = []"
    by (simp add: OfflineQueue_new_def loadQueue_def getItem_def tiny_storage_def
          demo_options_def getAll_def)
  from q late refused show ?thesis
    by (simp add: a s full getAll_def)
qed

text \<open>
  Claim C6, amended.  \<^verbatim>\<open>add(data)\<close> on a queue with \<^verbatim>\<open>queueSubmissions = true\<close>, then a new
  \<^verbatim>\<open>OfflineQueue\<close> (\<^verbatim>\<open>enabled = true\<close>) over the storage it left: \<^verbatim>\<open>getAll()\<close> of the new
  queue holds the added item, with the payload and \<^verbatim>\<open>retryCount = 0\<close>, provided that the
  JSON codec returns the queue it printed (the payload survives serialisation), that the
  backend accepts the write, and that the new queue is constructed less than seven days
  after the \<^verbatim>\<open>add\<close>.
\<close>

theorem add_reload_roundtrip:
  assumes "queueSubmissions (options q)" "enabled opts'"
    and "item = \<lparr>item_id = Some (generateULID t_id rnd), item_data = d,
                  item_timestamp = now, retryCount = 0\<rparr>"
    and "stringify_queue J (queue q @ [item]) = Some s" "s \<noteq> []"
    and "parse_queue J s = Parsed (queue q @ [item])"
    and "accepts st storageKey s"
    and "now' - now < 7 * 24 * 60 * 60 * 1000"
  shows "item \<in> set (getAll (fst (OfflineQueue_new J now' opts' (snd (add J t_id rnd now d q st)))))
       \<and> item_data item = d \<and> retryCount item = 0"
proof -
  let ?q1 = "q\<lparr>queue := queue q @ [item]\<rparr>"
  have a: "snd (add J t_id rnd now d q st) = saveQueue J ?q1 st"
    using assms(1,3) by (simp add: add_def Let_def)
  have "queue ?q1 \<noteq> []" by simp
  moreover have "stringify_queue J (queue ?q1) = Some s" using assms(4) by simp
  ultimately have st1: "map_of (entries (saveQueue J ?q1 st)) storageKey = Some s"
    "\<not> denied (saveQueue J ?q1 st)"
    using saveQueue_accepted [of ?q1 J s st] assms(7) by simp_all
  have "getAll (fst (OfflineQueue_new J now' opts' (saveQueue J ?q1 st))) =
          filter (\<lambda>i. now' - 604800000 < item_timestamp i \<and> retryCount i < 3) (queue q @ [item])"
    by (rule OfflineQueue_new_parsed [OF assms(2) st1(2) st1(1) assms(5) assms(6)])
  with a assms(3,8) show ?thesis by simp
qed

theorem add_reload_roundtrip_witness:
  "queueSubmissions (options open_queue) \<and> enabled demo_options
   \<and> item_RS = \<lparr>item_id = Some (generateULID 1000 ''0.abc''), item_data = ''a'',
                  item_timestamp = 1000, retryCount = 0\<rparr>
   \<and> stringify_queue (table_JSON [[item_RS]] []) (queue open_queue @ [item_RS]) = Some text_RS
   \<and> text_RS \<noteq> []
   \<and> parse_queue (table_JSON [[item_RS]] []) text_RS = Parsed (queue open_queue @ [item_RS])
   \<and> accepts fresh_storage storageKey text_RS
   \<and> (2000 :: int) - 1000 < 7 * 24 * 60 * 60 * 1000
   \<and> item_RS \<in> set (getAll (fst (OfflineQueue_new (table_JSON [[item_RS]] []) 2000 demo_options
        (snd (add (table_JSON [[item_RS]] []) 1000 ''0.abc'' 1000 ''a'' open_queue fresh_storage)))))
   \<and> item_data item_RS = ''a'' \<and> retryCount item_RS = 0"
proof -
  have h1: "queueSubmissions (options open_queue)" "enabled demo_options"
    by (simp_all add: open_queue_def demo_options_def)
  have id: "generateULID 1000 ''0.abc'' = ''00000000RS0000000000000ABC''"
    by code_simp
  have h3: "item_RS = \<lparr>item_id = Some (generateULID 1000 ''0.abc''), item_data = ''a'',
                  item_timestamp = 1000, retryCount = 0\<rparr>"
    by (simp add: id item_RS_def)
  have h4: "stringify_queue (table_JSON [[item_RS]] []) (queue open_queue @ [item_RS]) = Some text_RS"
    by (simp add: table_JSON_def open_queue_def print_RS)
  have h5: "text_RS \<noteq> []" by (simp add: text_RS_def)
  have h6: "parse_queue (table_JSON [[item_RS]] []) text_RS = Parsed (queue open_queue @ [item_RS])"
    by (simp add: table_JSON_def open_queue_def print_RS)
  have h7: "accepts fresh_storage storageKey text_RS"
    by (simp add: accepts_def fresh_storage_def storage_size_def text_RS_def storageKey_def)
  have h8: "(2000 :: int) - 1000 < 7 * 24 * 60 * 60 * 1000" by simp
  from add_reload_roundtrip [OF h1 h3 h4 h5 h6 h7 h8] h1 h3 h4 h5 h6 h7 h8
  show ?thesis by blast
qed

lemma bumped_ids:
  "map (item_id \<circ> (\<lambda>i. if item_id i = y then bump_retry i else i)) xs = map item_id xs"
  by (induction xs) (auto simp: bump_retry_def)

lemma bumped_member:
  "x \<in> set xs \<Longrightarrow> bump_retry x \<in> set (map (\<lambda>i. if item_id i = item_id x then bump_retry i else i) xs)"
  by (induction xs) auto

lemma incrementRetry_step:
  assumes "x \<in> set (queue q)" "distinct (map item_id (queue q))" "item_id item = item_id x"
  obtains q' where
    "incrementRetry J item q st = (retryCount x + 1 < 3, q', saveQueue J q' st)"
    "queue q' = map (\<lambda>i. if item_id i = item_id item then bump_retry i else i) (queue q)"
    "bump_retry x \<in> set (queue q')" "distinct (map item_id (queue q'))" "queue q' \<noteq> []"
proof -
  let ?q' = "q\<lparr>queue := map (\<lambda>i. if item_id i = item_id item then bump_retry i else i) (queue q)\<rparr>"
  have f: "find (\<lambda>i. item_id i = item_id item) (queue q) = Some x"
    using find_distinct [OF assms(2,1)] assms(3) by simp
  have u: "(queue q)[nat (findIndex (\<lambda>i. item_id i = item_id item) (queue q)) := bump_retry x]
      = map (\<lambda>i. if item_id i = item_id item then bump_retry i else i) (queue q)"
    using update_findIndex [OF assms(2,1), of bump_retry] assms(3) by simp
  have 1: "incrementRetry J item q st = (retryCount x + 1 < 3, ?q', saveQueue J ?q' st)"
    using u by (simp add: incrementRetry_def f Let_def maxRetries_def bump_retry_def)
  have 3: "bump_retry x \<in> set (queue ?q')"
    using bumped_member [OF assms(1)] assms(3) by simp
  have 4: "distinct (map item_id (queue ?q'))"
    using assms(2) by (simp add: bumped_ids)
  have 5: "queue ?q' \<noteq> []" using assms(1) by auto
  from 1 3 4 5 show thesis by (intro that [of ?q']) simp_all
qed

lemma reload_drops_exhausted:
  assumes "enabled opts" "\<not> denied st" "map_of (entries st) storageKey = Some s" "s \<noteq> []"
    "parse_queue J s = Parsed items" "distinct (map item_id items)" "x \<in> set items"
    "retryCount x = 3"
  shows "item_id x \<notin> item_id ` set (getAll (fst (OfflineQueue_new J now opts st)))"
proof -
  have "getAll (fst (OfflineQueue_new J now opts st)) =
          filter (\<lambda>item. now - 604800000 < item_timestamp item \<and> retryCount item < 3) items"
    by (rule OfflineQueue_new_parsed [OF assms(1-5)])
  moreover have "\<And>i. i \<in> set items \<Longrightarrow> item_id i = item_id x \<Longrightarrow> i = x"
    using assms(6,7) by (meson distinct_map inj_onD)
  ultimately show ?thesis using assms(8) by auto
qed

text \<open>
  Claim C1.  For an item of the queue (ids being distinct, as the data model has them),
  \<^verbatim>\<open>incrementRetry(item)\<close> adds one to that item's \<^verbatim>\<open>retryCount\<close> and leaves the other items
  alone, saves the queue (the backend then holds the new text whenever it accepts the
  write), and returns whether the new count is below 3.  For an item with
  \<^verbatim>\<open>retryCount = 0\<close>, three calls return \<^verbatim>\<open>true\<close>, \<^verbatim>\<open>true\<close>, \<^verbatim>\<open>false\<close>; the item, now with
  count 3, is still in \<^verbatim>\<open>getAll()\<close>; and a queue constructed from the storage afterwards
  has no item with that id, given that the codec returns the queue it printed and the
  backend has room for the text.
\<close>

theorem incrementRetry_ceiling:
  assumes "item \<in> set (getAll q)" "distinct (map item_id (getAll q))"
  shows "(case incrementRetry J item q st of
            (ok, q', st') \<Rightarrow>
              getAll q' = map (\<lambda>i. if item_id i = item_id item
                                     then i\<lparr>retryCount := retryCount i + 1\<rparr> else i) (getAll q)
              \<and> (ok \<longleftrightarrow> retryCount item + 1 < 3)
              \<and> st' = saveQueue J q' st
              \<and> (\<forall>s. stringify_queue J (getAll q') = Some s \<and> accepts st storageKey s
                     \<longrightarrow> map_of (entries st') storageKey = Some s))
       \<and> (retryCount item = 0 \<longrightarrow>
            (case three_retries J item q st of
               (oks, q3, st3) \<Rightarrow>
                 oks = [True, True, False]
                 \<and> item\<lparr>retryCount := 3\<rparr> \<in> set (getAll q3)
                 \<and> (\<forall>s now' opts'.
                       stringify_queue J (getAll q3) = Some s \<and> s \<noteq> []
                       \<and> parse_queue J s = Parsed (getAll q3)
                       \<and> accepts st storageKey s \<and> enabled opts'
                       \<longrightarrow> item_id item \<notin>
                             item_id ` set (getAll (fst (OfflineQueue_new J now' opts' st3))))))"
proof (intro conjI impI)
  from assms have m: "item \<in> set (queue q)" and d: "distinct (map item_id (queue q))"
    by (simp_all add: getAll_def)
  obtain q1 where s1: "incrementRetry J item q st = (retryCount item + 1 < 3, q1, saveQueue J q1 st)"
    and q1: "queue q1 = map (\<lambda>i. if item_id i = item_id item then bump_retry i else i) (queue q)"
    and m1: "bump_retry item \<in> set (queue q1)" and d1: "distinct (map item_id (queue q1))"
    and ne1: "queue q1 \<noteq> []"
    by (rule incrementRetry_step [OF m d refl])
  show "case incrementRetry J item q st of
            (ok, q', st') \<Rightarrow>
              getAll q' = map (\<lambda>i. if item_id i = item_id item
                                     then i\<lparr>retryCount := retryCount i + 1\<rparr> else i) (getAll q)
              \<and> (ok \<longleftrightarrow> retryCount item + 1 < 3)
              \<and> st' = saveQueue J q' st
              \<and> (\<forall>s. stringify_queue J (getAll q') = Some s \<and> accepts st storageKey s
                     \<longrightarrow> map_of (entries st') storageKey = Some s)"
    using ne1 saveQueue_accepted [of q1 J _ st]
    by (simp add: s1 q1 getAll_def bump_retry_def)
  assume zero: "retryCount item = 0"
  define st1 where "st1 = saveQueue J q1 st"
  have id1: "item_id item = item_id (bump_retry item)" by (simp add: bump_retry_def)
  obtain q2 where
    s2: "incrementRetry J item q1 st1 = (retryCount (bump_retry item) + 1 < 3, q2, saveQueue J q2 st1)"
    and m2: "bump_retry (bump_retry item) \<in> set (queue q2)"
    and d2: "distinct (map item_id (queue q2))" and ne2: "queue q2 \<noteq> []"
    by (rule incrementRetry_step [OF m1 d1 id1])
  define st2 where "st2 = saveQueue J q2 st1"
  have id2: "item_id item = item_id (bump_retry (bump_retry item))" by (simp add: bump_retry_def)
  obtain q3 where
    s3: "incrementRetry J item q2 st2 =
           (retryCount (bump_retry (bump_retry item)) + 1 < 3, q3, saveQueue J q3 st2)"
    and m3: "bump_retry (bump_retry (bump_retry item)) \<in> set (queue q3)"
    and d3: "distinct (map item_id (queue q3))" and ne3: "queue q3 \<noteq> []"
    by (rule incrementRetry_step [OF m2 d2 id2])
  define st3 where "st3 = saveQueue J q3 st2"
  have i3: "bump_retry (bump_retry (bump_retry item)) = item\<lparr>retryCount := 3\<rparr>"
    using zero by (simp add: bump_retry_def)
  have run: "three_retries J item q st = ([True, True, False], q3, st3)"
    using zero
    by (simp add: three_retries_def s1 s2 [unfolded st1_def] s3 [unfolded st2_def st1_def]
          st1_def st2_def st3_def bump_retry_def)
  have reload: "item_id item \<notin> item_id ` set (getAll (fst (OfflineQueue_new J now' opts' st3)))"
    if h: "stringify_queue J (queue q3) = Some s" "s \<noteq> []"
      "parse_queue J s = Parsed (queue q3)" "accepts st storageKey s" "enabled opts'"
    for s now' opts'
  proof -
    have "accepts st2 storageKey s"
      using h(4) ne1 ne2 by (simp add: st1_def st2_def accepts_saveQueue)
    then have "map_of (entries st3) storageKey = Some s \<and> \<not> denied st3"
      unfolding st3_def by (intro saveQueue_accepted ne3 h(1))
    then have "item_id (item\<lparr>retryCount := 3\<rparr>)
        \<notin> item_id ` set (getAll (fst (OfflineQueue_new J now' opts' st3)))"
      using h(2,3,5) d3 m3 i3
      by (intro reload_drops_exhausted [where s = s and items = "queue q3"]) simp_all
    then show ?thesis by simp
  qed
  show "case three_retries J item q st of
               (oks, q3, st3) \<Rightarrow>
                 oks = [True, True, False]
                 \<and> item\<lparr>retryCount := 3\<rparr> \<in> set (getAll q3)
                 \<and> (\<forall>s now' opts'.
                       stringify_queue J (getAll q3) = Some s \<and> s \<noteq> []
                       \<and> parse_queue J s = Parsed (getAll q3)
                       \<and> accepts st storageKey s \<and> enabled opts'
                       \<longrightarrow> item_id item \<notin>
                             item_id ` set (getAll (fst (OfflineQueue_new J now' opts' st3))))"
    unfolding run using m3 i3 reload
    by (simp add: getAll_def)
qed

lemma table_JSON_stringify: "stringify_queue (table_JSON qs es) q = Some (print_queue q)"
  by (simp add: table_JSON_def)

lemma print_queue_nonempty: "print_queue q \<noteq> []"
  by (simp add: print_queue_def)

theorem incrementRetry_ceiling_witness:
  "item_RS \<in> set (getAll queue_RS) \<and> distinct (map item_id (getAll queue_RS))
   \<and> retryCount item_RS = 0
   \<and> (case incrementRetry retries_JSON item_RS queue_RS fresh_storage of
         (ok, q', st') \<Rightarrow>
           getAll q' = [item_RS\<lparr>retryCount := 1\<rparr>] \<and> ok
           \<and> map_of (entries st') storageKey = Some (print_queue [item_RS\<lparr>retryCount := 1\<rparr>]))
   \<and> (case three_retries retries_JSON item_RS queue_RS fresh_storage of
         (oks, q3, st3) \<Rightarrow>
           oks = [True, True, False]
           \<and> getAll q3 = [item_RS\<lparr>retryCount := 3\<rparr>]
           \<and> item_id item_RS \<notin>
               item_id ` set (getAll (fst (OfflineQueue_new retries_JSON 2000 demo_options st3))))"
proof -
  have h1: "item_RS \<in> set (getAll queue_RS)" "distinct (map item_id (getAll queue_RS))"
    by (simp_all add: queue_RS_def getAll_def)
  have h2: "retryCount item_RS = 0" by (simp add: item_RS_def)
  have g1: "getAll (fst (snd (incrementRetry retries_JSON item_RS queue_RS fresh_storage)))
      = [item_RS\<lparr>retryCount := 1\<rparr>]"
    by (simp add: incrementRetry_def Let_def queue_RS_def getAll_def h2)
  have g3: "getAll (fst (snd (three_retries retries_JSON item_RS queue_RS fresh_storage)))
      = [item_RS\<lparr>retryCount := 3\<rparr>]"
    by (simp add: three_retries_def incrementRetry_def Let_def queue_RS_def getAll_def h2)
  have len: "length (print_queue [item_RS\<lparr>retryCount := r\<rparr>]) = 79 + length (print_int r)" for r
    by (simp add: print_queue_def print_item_def print_int_def item_RS_def)
  have a: "accepts fresh_storage storageKey (print_queue [item_RS\<lparr>retryCount := 1\<rparr>])"
    "accepts fresh_storage storageKey (print_queue [item_RS\<lparr>retryCount := 3\<rparr>])"
    by (simp_all add: accepts_def fresh_storage_def storage_size_def len storageKey_def print_int_def)
  have p: "parse_queue retries_JSON (print_queue [item_RS\<lparr>retryCount := 3\<rparr>])
      = Parsed [item_RS\<lparr>retryCount := 3\<rparr>]"
    by (simp add: retries_JSON_def table_JSON_def print_queue_def print_item_def print_int_def)
  have s: "\<And>q. stringify_queue retries_JSON q = Some (print_queue q)"
    by (simp add: retries_JSON_def table_JSON_stringify)
  have e: "enabled demo_options" by (simp add: demo_options_def)
  obtain ok q' st' where r1: "incrementRetry retries_JSON item_RS queue_RS fresh_storage = (ok, q', st')"
    by (cases "incrementRetry retries_JSON item_RS queue_RS fresh_storage") auto
  obtain oks q3 st3 where r3: "three_retries retries_JSON item_RS queue_RS fresh_storage = (oks, q3, st3)"
    by (cases "three_retries retries_JSON item_RS queue_RS fresh_storage") auto
  from g1 r1 have q': "getAll q' = [item_RS\<lparr>retryCount := 1\<rparr>]" by simp
  from g3 r3 have q3: "getAll q3 = [item_RS\<lparr>retryCount := 3\<rparr>]" by simp
  note T = incrementRetry_ceiling [OF h1, of retries_JSON fresh_storage, unfolded r1 r3 prod.case q' q3]
  from T h2 have ok and "map_of (entries st') storageKey = Some (print_queue [item_RS\<lparr>retryCount := 1\<rparr>])"
    using s a(1) by auto
  moreover from T h2 have "oks = [True, True, False]" by simp
  moreover from T h2 have "item_id item_RS \<notin>
      item_id ` set (getAll (fst (OfflineQueue_new retries_JSON 2000 demo_options st3)))"
    using s a(2) p e print_queue_nonempty by blast
  ultimately show ?thesis
    using h1 h2 by (simp add: r1 r3 q' q3)
qed

section \<open>Properties of the cache\<close>

lemma same_backend_refl [simp]: "same_backend st st"
  by (simp add: same_backend_def)

lemma same_backend_trans: "same_backend a b \<Longrightarrow> same_backend b c \<Longrightarrow> same_backend a c"
  by (simp add: same_backend_def)

lemma writes_logged: "writes (logged c st) = writes st + (if is_setItem c then 1 else 0)"
  by (simp add: writes_def)

lemma writes_entries [simp]: "writes (st\<lparr>entries := es\<rparr>) = writes st"
  by (simp add: writes_def)

lemma scan_keys_ok:
  "\<not> denied st \<Longrightarrow>
     \<exists>st'. scan_keys i keys st =
             (Inr (keys @ filter (\<lambda>k. startsWith k prefix) (drop i (map fst (entries st)))), st')
          \<and> entries st' = entries st \<and> same_backend st st'"
proof (induction "length (entries st) - i" arbitrary: i keys st)
  case 0
  then show ?case
    by (subst scan_keys.simps)
       (simp add: storage_length_def same_backend_def writes_logged)
next
  case (Suc n)
  let ?st1 = "logged Call_length st"
  let ?st2 = "logged (Call_key i) ?st1"
  let ?keys = "if startsWith (fst (entries st ! i)) prefix then keys @ [fst (entries st ! i)] else keys"
  from Suc.hyps(2) have lt: "i < length (entries st)" by simp
  have step: "scan_keys i keys st = scan_keys (i + 1) ?keys ?st2"
    using lt Suc.prems by (subst scan_keys.simps) (simp add: storage_length_def storage_key_def)
  have "n = length (entries ?st2) - (i + 1)" using Suc.hyps(2) by simp
  moreover have "\<not> denied ?st2" using Suc.prems by simp
  ultimately obtain st' where
    r: "scan_keys (i + 1) ?keys ?st2 =
          (Inr (?keys @ filter (\<lambda>k. startsWith k prefix) (drop (i + 1) (map fst (entries ?st2)))), st')"
    and e: "entries st' = entries ?st2" and b: "same_backend ?st2 st'"
    using Suc.hyps(1) [of ?st2 "i + 1" ?keys] by blast
  have d: "drop i (map fst (entries st)) = fst (entries st ! i) # drop (i + 1) (map fst (entries st))"
    using lt Cons_nth_drop_Suc [of i "map fst (entries st)"] by simp
  have sb: "same_backend st ?st2" by (simp add: same_backend_def writes_logged)
  have "same_backend st st'" by (rule same_backend_trans [OF sb b])
  with r e d step show ?case by auto
qed

lemma sweep_key_ok:
  assumes "\<not> denied st"
  shows "\<exists>st'. sweep_key J now opts key st = (Inr (), st')
           \<and> same_backend st st'
           \<and> map_of (entries st') =
               (\<lambda>k. if k = key \<and> stale J now opts (map_of (entries st) key) then None
                     else map_of (entries st) k)"
  using assms
  by (auto simp: sweep_key_def getItem_def removeItem_def stale_def same_backend_def
        writes_logged delete_conv' fun_eq_iff split: option.splits)

lemma sweep_keys_ok:
  "\<not> denied st \<Longrightarrow>
     \<exists>st'. sweep_keys J now opts keys st = (Inr (), st')
          \<and> same_backend st st'
          \<and> map_of (entries st') =
              (\<lambda>k. if k \<in> set keys \<and> stale J now opts (map_of (entries st) k) then None
                    else map_of (entries st) k)"
proof (induction keys arbitrary: st)
  case Nil
  then show ?case by simp
next
  case (Cons key keys)
  from sweep_key_ok [OF Cons.prems, of J now opts key] obtain st1 where
    1: "sweep_key J now opts key st = (Inr (), st1)" and b1: "same_backend st st1"
    and m1: "map_of (entries st1) =
               (\<lambda>k. if k = key \<and> stale J now opts (map_of (entries st) key) then None
                     else map_of (entries st) k)"
    by blast
  from b1 Cons.prems have "\<not> denied st1" by (simp add: same_backend_def)
  from Cons.IH [OF this] obtain st' where
    2: "sweep_keys J now opts keys st1 = (Inr (), st')" and b2: "same_backend st1 st'"
    and m2: "map_of (entries st') =
              (\<lambda>k. if k \<in> set keys \<and> stale J now opts (map_of (entries st1) k) then None
                    else map_of (entries st1) k)"
    by blast
  have "map_of (entries st') =
          (\<lambda>k. if k \<in> set (key # keys) \<and> stale J now opts (map_of (entries st) k) then None
                else map_of (entries st) k)"
    unfolding m2 m1 by (auto simp: fun_eq_iff stale_def)
  with 1 2 same_backend_trans [OF b1 b2] show ?case by simp
qed

lemma cleanExpired_ok:
  assumes "\<not> denied st"
  shows "\<exists>st'. cleanExpired J now opts st = (Inr (), st')
           \<and> same_backend st st'
           \<and> map_of (entries st') =
               (\<lambda>k. if startsWith k prefix \<and> stale J now opts (map_of (entries st) k) then None
                     else map_of (entries st) k)"
proof -
  let ?keys = "filter (\<lambda>k. startsWith k prefix) (map fst (entries st))"
  from scan_keys_ok [OF assms, of 0 "[]"] obtain st1 where
    1: "scan_keys 0 [] st = (Inr ?keys, st1)" and e1: "entries st1 = entries st"
    and b1: "same_backend st st1"
    by auto
  from b1 assms have "\<not> denied st1" by (simp add: same_backend_def)
  from sweep_keys_ok [OF this, of J now opts ?keys] obtain st' where
    2: "sweep_keys J now opts ?keys st1 = (Inr (), st')" and b2: "same_backend st1 st'"
    and m2: "map_of (entries st') =
              (\<lambda>k. if k \<in> set ?keys \<and> stale J now opts (map_of (entries st1) k) then None
                    else map_of (entries st1) k)"
    by blast
  have "map_of (entries st') =
          (\<lambda>k. if startsWith k prefix \<and> stale J now opts (map_of (entries st) k) then None
                else map_of (entries st) k)"
  proof
    fix k
    show "map_of (entries st') k =
          (if startsWith k prefix \<and> stale J now opts (map_of (entries st) k) then None
                else map_of (entries st) k)"
    proof (cases "k \<in> fst ` set (entries st)")
      case True
      then show ?thesis by (simp add: m2 e1)
    next
      case False
      then have "map_of (entries st) k = None" by (simp add: map_of_eq_None_iff)
      then show ?thesis by (simp add: m2 e1 stale_def)
    qed
  qed
  with 1 2 same_backend_trans [OF b1 b2] show ?thesis
    by (simp add: cleanExpired_def)
qed

lemma setItem_quota_not_denied:
  "setItem k v st = (Inl QuotaExceededError, st1) \<Longrightarrow>
     \<not> denied st \<and> st1 = logged (Call_setItem k v) st"
  by (auto simp: setItem_def split: if_splits)

lemma setItem_security:
  "setItem k v st = (Inl SecurityError, st1) \<Longrightarrow> st1 = logged (Call_setItem k v) st"
  by (auto simp: setItem_def split: if_splits)

lemma setItem_writes: "writes (snd (setItem k v st)) = writes st + 1"
  by (simp add: setItem_def writes_logged)

lemma setItem_refused:
  "\<not> accepts st k v \<Longrightarrow> entries (snd (setItem k v st)) = entries st"
  by (auto simp: setItem_def accepts_def)

text \<open>
  Claim C9.  \<^verbatim>\<open>set\<close> never throws: its result is \<open>Inr ()\<close> on every backend, codec and
  input.  When the first \<^verbatim>\<open>setItem\<close> fails with \<^verbatim>\<open>QuotaExceededError\<close>, \<^verbatim>\<open>cleanExpired\<close> runs
  and returns normally; afterwards every key under the prefix whose value was stale
  (expired or undecodable) is gone and every other key is as before; then the write is
  tried once more, with a fresh timestamp: the journal has two \<^verbatim>\<open>setItem\<close> calls more than
  before, and when the backend refuses the second one too, the entries are those the
  sweep left.  On a \<^verbatim>\<open>SecurityError\<close> the entries are unchanged, and when
  \<^verbatim>\<open>JSON.stringify\<close> throws the backend is not touched.
\<close>

theorem set_cache_never_throws:
  "fst (set_cache J now now_sweep now_retry opts key v tag st) = Inr ()
   \<and> (cache_enabled opts
        \<and> stringify_entry J \<lparr>entry_data = v, entry_timestamp = now, etag = tag\<rparr> = Some s
        \<and> setItem (prefix @ key) s st = (Inl QuotaExceededError, st1) \<longrightarrow>
        (\<exists>swept.
           cleanExpired J now_sweep opts st1 = (Inr (), swept)
           \<and> (\<forall>k. map_of (entries swept) k =
                  (if startsWith k prefix \<and> stale J now_sweep opts (map_of (entries st) k)
                   then None else map_of (entries st) k))
           \<and> (case stringify_entry J \<lparr>entry_data = v, entry_timestamp = now_retry, etag = tag\<rparr> of
                 None \<Rightarrow> snd (set_cache J now now_sweep now_retry opts key v tag st) = swept
               | Some s' \<Rightarrow>
                   snd (set_cache J now now_sweep now_retry opts key v tag st)
                     = snd (setItem (prefix @ key) s' swept)
                   \<and> writes (snd (set_cache J now now_sweep now_retry opts key v tag st))
                       = writes st + 2
                   \<and> (\<not> accepts swept (prefix @ key) s' \<longrightarrow>
                        entries (snd (set_cache J now now_sweep now_retry opts key v tag st))
                          = entries swept))))
   \<and> (cache_enabled opts
        \<and> stringify_entry J \<lparr>entry_data = v, entry_timestamp = now, etag = tag\<rparr> = Some s
        \<and> setItem (prefix @ key) s st = (Inl SecurityError, st1) \<longrightarrow>
        snd (set_cache J now now_sweep now_retry opts key v tag st) = st1
        \<and> entries st1 = entries st)
   \<and> (stringify_entry J \<lparr>entry_data = v, entry_timestamp = now, etag = tag\<rparr> = None \<longrightarrow>
        snd (set_cache J now now_sweep now_retry opts key v tag st) = st)"
proof (intro conjI impI)
  show "fst (set_cache J now now_sweep now_retry opts key v tag st) = Inr ()"
  proof (cases "stringify_entry J \<lparr>entry_data = v, entry_timestamp = now, etag = tag\<rparr>")
    case None
    then show ?thesis by (simp add: set_cache_def)
  next
    case (Some t)
    obtain r st' where w: "setItem (prefix @ key) t st = (r, st')"
      by (cases "setItem (prefix @ key) t st") auto
    show ?thesis
    proof (cases "r = Inl QuotaExceededError")
      case True
      with w have "\<not> denied st'"
        using setItem_quota_not_denied [of "prefix @ key" t st st'] by simp
      from cleanExpired_ok [OF this, of J now_sweep opts] obtain swept where
        "cleanExpired J now_sweep opts st' = (Inr (), swept)" by blast
      with Some w True show ?thesis
        by (simp add: set_cache_def split: option.splits)
    next
      case False
      with Some w show ?thesis
        by (cases r) (auto simp: set_cache_def split: option.splits)
    qed
  qed
next
  assume h: "cache_enabled opts
        \<and> stringify_entry J \<lparr>entry_data = v, entry_timestamp = now, etag = tag\<rparr> = Some s
        \<and> setItem (prefix @ key) s st = (Inl QuotaExceededError, st1)"
  then have nd: "\<not> denied st" and st1: "st1 = logged (Call_setItem (prefix @ key) s) st"
    using setItem_quota_not_denied [of "prefix @ key" s st st1] by simp_all
  then have nd1: "\<not> denied st1" by simp
  from cleanExpired_ok [OF nd1, of J now_sweep opts] obtain swept where
    c: "cleanExpired J now_sweep opts st1 = (Inr (), swept)" and b: "same_backend st1 swept"
    and m: "map_of (entries swept) =
               (\<lambda>k. if startsWith k prefix \<and> stale J now_sweep opts (map_of (entries st1) k)
                     then None else map_of (entries st1) k)"
    by blast
  have w: "writes swept = writes st + 1"
    using b by (simp add: same_backend_def st1 writes_logged)
  have "\<forall>k. map_of (entries swept) k =
                  (if startsWith k prefix \<and> stale J now_sweep opts (map_of (entries st) k)
                   then None else map_of (entries st) k)"
    by (simp add: m st1)
  moreover have "case stringify_entry J \<lparr>entry_data = v, entry_timestamp = now_retry, etag = tag\<rparr> of
                 None \<Rightarrow> snd (set_cache J now now_sweep now_retry opts key v tag st) = swept
               | Some s' \<Rightarrow>
                   snd (set_cache J now now_sweep now_retry opts key v tag st)
                     = snd (setItem (prefix @ key) s' swept)
                   \<and> writes (snd (set_cache J now now_sweep now_retry opts key v tag st))
                       = writes st + 2
                   \<and> (\<not> accepts swept (prefix @ key) s' \<longrightarrow>
                        entries (snd (set_cache J now now_sweep now_retry opts key v tag st))
                          = entries swept)"
    using h c w by (simp add: set_cache_def setItem_writes setItem_refused split: option.splits)
  ultimately show "\<exists>swept.
           cleanExpired J now_sweep opts st1 = (Inr (), swept)
           \<and> (\<forall>k. map_of (entries swept) k =
                  (if startsWith k prefix \<and> stale J now_sweep opts (map_of (entries st) k)
                   then None else map_of (entries st) k))
           \<and> (case stringify_entry J \<lparr>entry_data = v, entry_timestamp = now_retry, etag = tag\<rparr> of
                 None \<Rightarrow> snd (set_cache J now now_sweep now_retry opts key v tag st) = swept
               | Some s' \<Rightarrow>
                   snd (set_cache J now now_sweep now_retry opts key v tag st)
                     = snd (setItem (prefix @ key) s' swept)
                   \<and> writes (snd (set_cache J now now_sweep now_retry opts key v tag st))
                       = writes st + 2
                   \<and> (\<not> accepts swept (prefix @ key) s' \<longrightarrow>
                        entries (snd (set_cache J now now_sweep now_retry opts key v tag st))
                          = entries swept))"
    using c by blast
next
  assume h: "cache_enabled opts
        \<and> stringify_entry J \<lparr>entry_data = v, entry_timestamp = now, etag = tag\<rparr> = Some s
        \<and> setItem (prefix @ key) s st = (Inl SecurityError, st1)"
  then show "snd (set_cache J now now_sweep now_retry opts key v tag st) = st1"
    by (simp add: set_cache_def)
  from h show "entries st1 = entries st"
    using setItem_security [of "prefix @ key" s st st1] by simp
next
  assume "stringify_entry J \<lparr>entry_data = v, entry_timestamp = now, etag = tag\<rparr> = None"
  then show "snd (set_cache J now now_sweep now_retry opts key v tag st) = st"
    by (simp add: set_cache_def)
qed

lemma print_entry_nonempty: "print_entry e \<noteq> []"
  by (simp add: print_entry_def)

lemma print_old: \<open>print_entry old_entry = ''{"data":"old","timestamp":0}''\<close>
  by (simp add: print_entry_def old_entry_def print_int_def)

lemma print_cfg:
  \<open>print_entry (cfg_entry 5000) = ''{"data":"cfg","timestamp":5000}''\<close>
  \<open>print_entry (cfg_entry 5002) = ''{"data":"cfg","timestamp":5002}''\<close>
  by (simp_all add: print_entry_def cfg_entry_def print_int_def)

lemma first_write:
  "setItem (prefix @ ''config_X'') (print_entry (cfg_entry 5000)) full_storage
     = (Inl QuotaExceededError,
        logged (Call_setItem (prefix @ ''config_X'') (print_entry (cfg_entry 5000))) full_storage)"
  by (simp add: setItem_def full_storage_def print_old print_cfg prefix_def storage_size_def)

lemma parse_old: "parse_entry cache_JSON (print_entry old_entry) = Some old_entry"
  by (simp add: cache_JSON_def table_JSON_def)

lemma sweep_full:
  "cleanExpired cache_JSON 5001 cache_opts
      (logged (Call_setItem (prefix @ ''config_X'') (print_entry (cfg_entry 5000))) full_storage)
    = (Inr (), swept_storage)"
  by (simp add: cleanExpired_def full_storage_def logged_def storage_length_def storage_key_def
     startsWith_def prefix_def sweep_key_def getItem_def removeItem_def parse_old cache_opts_def
     swept_storage_def print_entry_nonempty)
     (simp add: old_entry_def)

theorem set_cache_never_throws_witness:
  "cache_enabled cache_opts
   \<and> stringify_entry cache_JSON (cfg_entry 5000) = Some (print_entry (cfg_entry 5000))
   \<and> setItem (prefix @ ''config_X'') (print_entry (cfg_entry 5000)) full_storage
       = (Inl QuotaExceededError,
          logged (Call_setItem (prefix @ ''config_X'') (print_entry (cfg_entry 5000))) full_storage)
   \<and> fst (set_cache cache_JSON 5000 5001 5002 cache_opts ''config_X'' ''cfg'' None full_storage)
       = Inr ()
   \<and> snd (set_cache cache_JSON 5000 5001 5002 cache_opts ''config_X'' ''cfg'' None full_storage)
       = snd (setItem (prefix @ ''config_X'') (print_entry (cfg_entry 5002)) swept_storage)
   \<and> writes (snd (set_cache cache_JSON 5000 5001 5002 cache_opts ''config_X'' ''cfg'' None
        full_storage)) = 2
   \<and> entries (snd (set_cache cache_JSON 5000 5001 5002 cache_opts ''config_X'' ''cfg'' None
        full_storage)) = [(prefix @ ''config_X'', print_entry (cfg_entry 5002))]
   \<and> setItem (prefix @ ''config_X'') (print_entry (cfg_entry 5000)) tiny_storage
       = (Inl QuotaExceededError,
          logged (Call_setItem (prefix @ ''config_X'') (print_entry (cfg_entry 5000))) tiny_storage)
   \<and> \<not> accepts (logged Call_length
          (logged (Call_setItem (prefix @ ''config_X'') (print_entry (cfg_entry 5000))) tiny_storage))
        (prefix @ ''config_X'') (print_entry (cfg_entry 5002))
   \<and> set_cache cache_JSON 5000 5001 5002 cache_opts ''config_X'' ''cfg'' None tiny_storage
       = (Inr (), tiny_refused)
   \<and> entries tiny_refused = entries tiny_storage
   \<and> setItem (prefix @ ''config_X'') (print_entry (cfg_entry 5000)) denied_storage
       = (Inl SecurityError,
          logged (Call_setItem (prefix @ ''config_X'') (print_entry (cfg_entry 5000))) denied_storage)
   \<and> set_cache cache_JSON 5000 5001 5002 cache_opts ''config_X'' ''cfg'' None denied_storage
       = (Inr (),
          logged (Call_setItem (prefix @ ''config_X'') (print_entry (cfg_entry 5000))) denied_storage)
   \<and> stringify_entry cyclic_JSON (cfg_entry 5000) = None
   \<and> set_cache cyclic_JSON 5000 5001 5002 cache_opts ''config_X'' ''cfg'' None full_storage
       = (Inr (), full_storage)"
proof -
  have e: "cache_enabled cache_opts" by (simp add: cache_opts_def)
  have s: "stringify_entry cache_JSON \<lparr>entry_data = ''cfg'', entry_timestamp = t, etag = None\<rparr>
      = Some (print_entry (cfg_entry t))" for t
    by (simp add: cache_JSON_def table_JSON_def cfg_entry_def)
  have d: "setItem (prefix @ ''config_X'') (print_entry (cfg_entry 5000)) denied_storage
       = (Inl SecurityError,
          logged (Call_setItem (prefix @ ''config_X'') (print_entry (cfg_entry 5000))) denied_storage)"
    by (simp add: setItem_def denied_storage_def)
  have c: "stringify_entry cyclic_JSON \<lparr>entry_data = ''cfg'', entry_timestamp = 5000, etag = None\<rparr>
      = None"
    by (simp add: cyclic_JSON_def)
  have w0: "writes full_storage = 0" by (simp add: writes_def full_storage_def)
  note A = set_cache_never_throws [of cache_JSON 5000 5001 5002 cache_opts "''config_X''" "''cfg''"
      None full_storage "print_entry (cfg_entry 5000)"
      "logged (Call_setItem (prefix @ ''config_X'') (print_entry (cfg_entry 5000))) full_storage"]
  note B = set_cache_never_throws [of cache_JSON 5000 5001 5002 cache_opts "''config_X''" "''cfg''"
      None denied_storage "print_entry (cfg_entry 5000)"
      "logged (Call_setItem (prefix @ ''config_X'') (print_entry (cfg_entry 5000))) denied_storage"]
  note C = set_cache_never_throws [of cyclic_JSON 5000 5001 5002 cache_opts "''config_X''" "''cfg''"
      None full_storage]
  from A e s first_write sweep_full w0
  have a: "fst (set_cache cache_JSON 5000 5001 5002 cache_opts ''config_X'' ''cfg'' None full_storage)
       = Inr ()
     \<and> snd (set_cache cache_JSON 5000 5001 5002 cache_opts ''config_X'' ''cfg'' None full_storage)
       = snd (setItem (prefix @ ''config_X'') (print_entry (cfg_entry 5002)) swept_storage)
     \<and> writes (snd (set_cache cache_JSON 5000 5001 5002 cache_opts ''config_X'' ''cfg'' None
        full_storage)) = 2"
    by auto
  have r: "entries (snd (setItem (prefix @ ''config_X'') (print_entry (cfg_entry 5002)) swept_storage))
      = [(prefix @ ''config_X'', print_entry (cfg_entry 5002))]"
    by (simp add: setItem_def swept_storage_def storage_size_def print_cfg prefix_def)
  from a r
  have a': "entries (snd (set_cache cache_JSON 5000 5001 5002 cache_opts ''config_X'' ''cfg'' None
        full_storage)) = [(prefix @ ''config_X'', print_entry (cfg_entry 5002))]"
    by simp
  have tw: "setItem (prefix @ ''config_X'') (print_entry (cfg_entry 5000)) tiny_storage
       = (Inl QuotaExceededError,
          logged (Call_setItem (prefix @ ''config_X'') (print_entry (cfg_entry 5000))) tiny_storage)"
    by (simp add: setItem_def tiny_storage_def print_cfg prefix_def storage_size_def)
  have ts: "cleanExpired cache_JSON 5001 cache_opts
      (logged (Call_setItem (prefix @ ''config_X'') (print_entry (cfg_entry 5000))) tiny_storage)
    = (Inr (), logged Call_length
        (logged (Call_setItem (prefix @ ''config_X'') (print_entry (cfg_entry 5000))) tiny_storage))"
    by (simp add: cleanExpired_def tiny_storage_def logged_def storage_length_def)
  have tr: "\<not> accepts (logged Call_length
          (logged (Call_setItem (prefix @ ''config_X'') (print_entry (cfg_entry 5000))) tiny_storage))
        (prefix @ ''config_X'') (print_entry (cfg_entry 5002))"
    by (simp add: accepts_def tiny_storage_def print_cfg prefix_def storage_size_def)
  have tf: "snd (setItem (prefix @ ''config_X'') (print_entry (cfg_entry 5002))
        (logged Call_length
          (logged (Call_setItem (prefix @ ''config_X'') (print_entry (cfg_entry 5000))) tiny_storage)))
      = tiny_refused"
    by (simp add: setItem_def tiny_storage_def tiny_refused_def logged_def print_cfg prefix_def
          storage_size_def)
  have te: "entries tiny_refused = entries tiny_storage"
    by (simp add: tiny_refused_def tiny_storage_def)
  note F = set_cache_never_throws [of cache_JSON 5000 5001 5002 cache_opts "''config_X''" "''cfg''"
      None tiny_storage "print_entry (cfg_entry 5000)"
      "logged (Call_setItem (prefix @ ''config_X'') (print_entry (cfg_entry 5000))) tiny_storage"]
  from F e s tw ts tf
  have f: "set_cache cache_JSON 5000 5001 5002 cache_opts ''config_X'' ''cfg'' None tiny_storage
       = (Inr (), tiny_refused)"
    by (auto simp: prod_eq_iff)
  from B e s d
  have b: "set_cache cache_JSON 5000 5001 5002 cache_opts ''config_X'' ''cfg'' None denied_storage
       = (Inr (),
          logged (Call_setItem (prefix @ ''config_X'') (print_entry (cfg_entry 5000))) denied_storage)"
    by (simp add: prod_eq_iff)
  from C c
  have c': "set_cache cyclic_JSON 5000 5001 5002 cache_opts ''config_X'' ''cfg'' None full_storage
       = (Inr (), full_storage)"
    by (simp add: prod_eq_iff)
  have s': "stringify_entry cache_JSON (cfg_entry 5000) = Some (print_entry (cfg_entry 5000))"
    using s [of 5000] by (simp add: cfg_entry_def)
  have c'': "stringify_entry cyclic_JSON (cfg_entry 5000) = None"
    using c by (simp add: cfg_entry_def)
  from a a' b c' e s' first_write d c'' tw tr f te show ?thesis
    by blast
qed

text \<open>
  Claim C2.  With the cache enabled: after a \<^verbatim>\<open>set(key, value)\<close> at \<open>t_set\<close> that the
  backend accepts (the codec returning the entry it printed), \<^verbatim>\<open>get(key)\<close> at \<open>t_get\<close>
  returns the value when \<open>t_get - t_set \<le> ttl\<close>, and returns a miss and deletes the key when
  \<open>t_get - t_set > ttl\<close>.  The same holds of whatever entry the backend holds for the key:
  returned when \<open>now - entry.timestamp \<le> ttl\<close>, otherwise a miss and the key deleted.
  Stored text that does not decode gives a miss, not an error.
\<close>

theorem get_cache_ttl:
  assumes "cache_enabled opts"
  shows
    "(stringify_entry J \<lparr>entry_data = v, entry_timestamp = t_set, etag = tag\<rparr> = Some s \<and> s \<noteq> []
        \<and> parse_entry J s = Some \<lparr>entry_data = v, entry_timestamp = t_set, etag = tag\<rparr>
        \<and> accepts st (prefix @ key) s \<longrightarrow>
        (case get_cache J t_get opts key (snd (set_cache J t_set t_sweep t_retry opts key v tag st)) of
           (r, st') \<Rightarrow>
             (t_get - t_set \<le> ttl opts \<longrightarrow> r = Some v)
             \<and> (t_get - t_set > ttl opts \<longrightarrow> r = None \<and> map_of (entries st') (prefix @ key) = None)))
     \<and> (\<not> denied st \<and> map_of (entries st) (prefix @ key) = Some s \<and> s \<noteq> []
          \<and> parse_entry J s = Some entry \<longrightarrow>
          (case get_cache J now opts key st of
             (r, st') \<Rightarrow>
               (now - entry_timestamp entry \<le> ttl opts \<longrightarrow>
                  r = Some (entry_data entry) \<and> entries st' = entries st)
               \<and> (now - entry_timestamp entry > ttl opts \<longrightarrow>
                    r = None \<and> map_of (entries st') (prefix @ key) = None)))
     \<and> (map_of (entries st) (prefix @ key) = Some s \<and> parse_entry J s = None \<longrightarrow>
          fst (get_cache J now opts key st) = None)"
proof (intro conjI impI)
  assume h: "stringify_entry J \<lparr>entry_data = v, entry_timestamp = t_set, etag = tag\<rparr> = Some s \<and> s \<noteq> []
        \<and> parse_entry J s = Some \<lparr>entry_data = v, entry_timestamp = t_set, etag = tag\<rparr>
        \<and> accepts st (prefix @ key) s"
  let ?st1 = "logged (Call_setItem (prefix @ key) s)
                (st\<lparr>entries := AList.update (prefix @ key) s (entries st)\<rparr>)"
  from h assms have w: "snd (set_cache J t_set t_sweep t_retry opts key v tag st) = ?st1"
    by (simp add: set_cache_def setItem_accepted)
  from h have nd: "\<not> denied ?st1" by (simp add: accepts_def)
  have m: "map_of (entries ?st1) (prefix @ key) = Some s" by (simp add: update_conv')
  show "case get_cache J t_get opts key (snd (set_cache J t_set t_sweep t_retry opts key v tag st)) of
           (r, st') \<Rightarrow>
             (t_get - t_set \<le> ttl opts \<longrightarrow> r = Some v)
             \<and> (t_get - t_set > ttl opts \<longrightarrow> r = None \<and> map_of (entries st') (prefix @ key) = None)"
    unfolding w using h assms nd m
    by (simp add: get_cache_def getItem_def removeItem_def delete_conv')
next
  assume h: "\<not> denied st \<and> map_of (entries st) (prefix @ key) = Some s \<and> s \<noteq> []
          \<and> parse_entry J s = Some entry"
  with assms show "case get_cache J now opts key st of
             (r, st') \<Rightarrow>
               (now - entry_timestamp entry \<le> ttl opts \<longrightarrow>
                  r = Some (entry_data entry) \<and> entries st' = entries st)
               \<and> (now - entry_timestamp entry > ttl opts \<longrightarrow>
                    r = None \<and> map_of (entries st') (prefix @ key) = None)"
    by (simp add: get_cache_def getItem_def removeItem_def delete_conv')
next
  assume "map_of (entries st) (prefix @ key) = Some s \<and> parse_entry J s = None"
  with assms show "fst (get_cache J now opts key st) = None"
    by (simp add: get_cache_def getItem_def)
qed

theorem get_cache_ttl_witness:
  "cache_enabled cache_opts
   \<and> stringify_entry cache_JSON (cfg_entry 5000) = Some (print_entry (cfg_entry 5000))
   \<and> print_entry (cfg_entry 5000) \<noteq> []
   \<and> parse_entry cache_JSON (print_entry (cfg_entry 5000)) = Some (cfg_entry 5000)
   \<and> accepts fresh_storage (prefix @ ''config_X'') (print_entry (cfg_entry 5000))
   \<and> fst (get_cache cache_JSON 6000 cache_opts ''config_X''
        (snd (set_cache cache_JSON 5000 5001 5002 cache_opts ''config_X'' ''cfg'' None fresh_storage)))
       = Some ''cfg''
   \<and> (case get_cache cache_JSON 6001 cache_opts ''config_X''
        (snd (set_cache cache_JSON 5000 5001 5002 cache_opts ''config_X'' ''cfg'' None fresh_storage)) of
         (r, st') \<Rightarrow> r = None \<and> map_of (entries st') (prefix @ ''config_X'') = None)
   \<and> \<not> denied full_storage
   \<and> map_of (entries full_storage) (prefix @ ''old'') = Some (print_entry old_entry)
   \<and> parse_entry cache_JSON (print_entry old_entry) = Some old_entry
   \<and> (case get_cache cache_JSON 1000 cache_opts ''old'' full_storage of
         (r, st') \<Rightarrow> r = Some ''old'' \<and> entries st' = entries full_storage)
   \<and> (case get_cache cache_JSON 1001 cache_opts ''old'' full_storage of
         (r, st') \<Rightarrow> r = None \<and> map_of (entries st') (prefix @ ''old'') = None)
   \<and> map_of (entries corrupted_cache) (prefix @ ''config_X'') = Some ''###''
   \<and> parse_entry cache_JSON ''###'' = None
   \<and> fst (get_cache cache_JSON 5000 cache_opts ''config_X'' corrupted_cache) = None"
proof -
  have e: "cache_enabled cache_opts" and ttl: "ttl cache_opts = 1000"
    by (simp_all add: cache_opts_def)
  have s: "stringify_entry cache_JSON \<lparr>entry_data = ''cfg'', entry_timestamp = 5000, etag = None\<rparr>
      = Some (print_entry (cfg_entry 5000))"
    by (simp add: cache_JSON_def table_JSON_def cfg_entry_def)
  have p: "parse_entry cache_JSON (print_entry (cfg_entry 5000))
      = Some \<lparr>entry_data = ''cfg'', entry_timestamp = 5000, etag = None\<rparr>"
    by (simp add: cache_JSON_def table_JSON_def print_old print_cfg) (simp add: cfg_entry_def)
  have a: "accepts fresh_storage (prefix @ ''config_X'') (print_entry (cfg_entry 5000))"
    by (simp add: accepts_def fresh_storage_def storage_size_def print_cfg prefix_def)
  have nd: "\<not> denied full_storage" by (simp add: full_storage_def)
  have m: "map_of (entries full_storage) (prefix @ ''old'') = Some (print_entry old_entry)"
    by (simp add: full_storage_def prefix_def)
  have mc: "map_of (entries corrupted_cache) (prefix @ ''config_X'') = Some ''###''"
    by (simp add: corrupted_cache_def prefix_def)
  have pc: "parse_entry cache_JSON ''###'' = None"
    by (simp add: cache_JSON_def table_JSON_def print_old print_cfg)
  have o: "entry_timestamp old_entry = 0" "entry_data old_entry = ''old''"
    by (simp_all add: old_entry_def)
  note A = get_cache_ttl [OF e, where J = cache_JSON and v = "''cfg''" and t_set = 5000
      and tag = None and s = "print_entry (cfg_entry 5000)" and st = fresh_storage
      and key = "''config_X''" and t_get = 6000 and t_sweep = 5001 and t_retry = 5002,
      THEN conjunct1]
  note B = get_cache_ttl [OF e, where J = cache_JSON and v = "''cfg''" and t_set = 5000
      and tag = None and s = "print_entry (cfg_entry 5000)" and st = fresh_storage
      and key = "''config_X''" and t_get = 6001 and t_sweep = 5001 and t_retry = 5002,
      THEN conjunct1]
  note C = get_cache_ttl [OF e, where J = cache_JSON
      and s = "print_entry old_entry" and st = full_storage and key = "''old''"
      and entry = old_entry and now = 1000, THEN conjunct2, THEN conjunct1]
  note D = get_cache_ttl [OF e, where J = cache_JSON
      and s = "print_entry old_entry" and st = full_storage and key = "''old''"
      and entry = old_entry and now = 1001, THEN conjunct2, THEN conjunct1]
  note E = get_cache_ttl [OF e, where J = cache_JSON
      and s = "''###''" and st = corrupted_cache and key = "''config_X''" and now = 5000,
      THEN conjunct2, THEN conjunct2]
  from A s p a print_entry_nonempty [of "cfg_entry 5000"]
  have 1: "fst (get_cache cache_JSON 6000 cache_opts ''config_X''
        (snd (set_cache cache_JSON 5000 5001 5002 cache_opts ''config_X'' ''cfg'' None fresh_storage)))
       = Some ''cfg''"
    by (auto simp: ttl split: prod.splits)
  from B s p a print_entry_nonempty [of "cfg_entry 5000"]
  have 2: "case get_cache cache_JSON 6001 cache_opts ''config_X''
        (snd (set_cache cache_JSON 5000 5001 5002 cache_opts ''config_X'' ''cfg'' None fresh_storage)) of
         (r, st') \<Rightarrow> r = None \<and> map_of (entries st') (prefix @ ''config_X'') = None"
    by (auto simp: ttl split: prod.splits)
  from C nd m parse_old print_entry_nonempty [of old_entry]
  have 3: "case get_cache cache_JSON 1000 cache_opts ''old'' full_storage of
         (r, st') \<Rightarrow> r = Some ''old'' \<and> entries st' = entries full_storage"
    by (auto simp: ttl o split: prod.splits)
  from D nd m parse_old print_entry_nonempty [of old_entry]
  have 4: "case get_cache cache_JSON 1001 cache_opts ''old'' full_storage of
         (r, st') \<Rightarrow> r = None \<and> map_of (entries st') (prefix @ ''old'') = None"
    by (auto simp: ttl o split: prod.splits)
  from E mc pc
  have 5: "fst (get_cache cache_JSON 5000 cache_opts ''config_X'' corrupted_cache) = None"
    by simp
  have s': "stringify_entry cache_JSON (cfg_entry 5000) = Some (print_entry (cfg_entry 5000))"
    using s by (simp add: cfg_entry_def)
  have p': "parse_entry cache_JSON (print_entry (cfg_entry 5000)) = Some (cfg_entry 5000)"
    using p by (simp add: cfg_entry_def)
  from 1 2 3 4 5 e s' p' a nd m mc pc parse_old print_entry_nonempty [of "cfg_entry 5000"]
  show ?thesis by blast
qed

text \<open>
  Claim C5, as stated, fails at construction: the constructor calls \<^verbatim>\<open>cleanExpired\<close>
  whatever \<^verbatim>\<open>enabled\<close> is.  With \<^verbatim>\<open>enabled = false\<close>, over a backend that holds an expired
  entry, the constructor reads the backend and deletes the entry.
\<close>

theorem disabled_construction_sweeps:
  "\<not> cache_enabled disabled_opts
   \<and> this_storage disabled_opts demo_window = full_storage
   \<and> entries full_storage = [(''mail818_old'', print_entry old_entry)]
   \<and> calls full_storage = []
   \<and> CacheManager_new cache_JSON 5001 disabled_opts demo_window = (Inr (), swept_at_construction)
   \<and> entries swept_at_construction = []
   \<and> calls swept_at_construction \<noteq> []"
  by (simp add: CacheManager_new_def this_storage_def demo_window_def cleanExpired_def
     full_storage_def logged_def
     storage_length_def storage_key_def startsWith_def prefix_def sweep_key_def getItem_def
     removeItem_def parse_old disabled_opts_def swept_at_construction_def print_entry_nonempty)
     (simp add: old_entry_def)

text \<open>
  Claim C5, amended.  On a \<^verbatim>\<open>CacheManager\<close> with \<^verbatim>\<open>enabled = false\<close>, once constructed,
  \<^verbatim>\<open>get\<close> returns a miss and \<^verbatim>\<open>set\<close> does nothing, and each leaves the backend as it was,
  journal included (no read, write or deletion); so does every run of \<^verbatim>\<open>get\<close> and \<^verbatim>\<open>set\<close>
  calls.
\<close>

theorem cache_disabled_noop:
  assumes "\<not> cache_enabled opts"
  shows "get_cache J now opts key st = (None, st)
       \<and> set_cache J now now_sweep now_retry opts key v tag st = (Inr (), st)
       \<and> run_cache J opts cs st = (map missed cs, st)"
proof -
  have g: "\<And>now key st. get_cache J now opts key st = (None, st)"
    using assms by (simp add: get_cache_def)
  have s: "\<And>now now_sweep now_retry key v tag st.
      set_cache J now now_sweep now_retry opts key v tag st = (Inr (), st)"
    using assms by (simp add: set_cache_def)
  have "run_cache J opts cs st = (map missed cs, st)"
  proof (induction cs)
    case Nil
    then show ?case by simp
  next
    case (Cons c cs)
    then show ?case by (cases c) (simp_all add: g s)
  qed
  with g s show ?thesis by simp
qed

theorem cache_disabled_noop_witness:
  "\<not> cache_enabled disabled_opts
   \<and> get_cache cache_JSON 5001 disabled_opts ''old'' full_storage = (None, full_storage)
   \<and> set_cache cache_JSON 5000 5001 5002 disabled_opts ''config_X'' ''cfg'' None full_storage
       = (Inr (), full_storage)
   \<and> run_cache cache_JSON disabled_opts
        [Call_set 5000 5001 5002 ''config_X'' ''cfg'' None, Call_get 5003 ''config_X'',
         Call_get 5004 ''old''] full_storage
       = ([Done (Inr ()), Got None, Got None], full_storage)"
proof -
  have h: "\<not> cache_enabled disabled_opts" by (simp add: disabled_opts_def)
  from cache_disabled_noop [OF h, of cache_JSON _ _ full_storage] h show ?thesis
    by simp
qed

end
